theory Spec2Isabelle
  imports Complex_Main "HOL-Library.AList" "HOL-Library.List_Lexorder" "HOL-Library.Char_ord"
    "HOL-Library.Sublist"
begin

section \<open>Data model\<close>

text \<open>
  Values produced by \<^verbatim>\<open>json.load\<close>: \<^verbatim>\<open>None\<close>, booleans, unbounded integers, floats,
  strings, lists and dictionaries. A float is kept as the rational number it denotes.
  A Python \<^verbatim>\<open>dict\<close> is an association list in insertion order with unique keys.
\<close>

datatype json =
    JNull
  | JBool bool
  | JInt int
  | JFloat rat
  | JStr string
  | JArr "json list"
  | JObj "(string \<times> json) list"

type_synonym pydict = "(string \<times> json) list"

text \<open>The exceptions of the modelled code that can leave a function.\<close>

datatype error = ValueError | TypeError | AttributeError | JSONDecodeError | OSError

text \<open>\<^verbatim>\<open>d.get(key, default)\<close>\<close>

definition dict_get :: "pydict \<Rightarrow> string \<Rightarrow> json \<Rightarrow> json" where
  "dict_get d k dflt = (case map_of d k of None \<Rightarrow> dflt | Some v \<Rightarrow> v)"

text \<open>\<^verbatim>\<open>d[key] = value\<close>\<close>

definition dict_set :: "pydict \<Rightarrow> string \<Rightarrow> json \<Rightarrow> pydict" where
  "dict_set d k v = AList.update k v d"

text \<open>Python truthiness (\<^verbatim>\<open>bool(v)\<close>) of a JSON value.\<close>

fun truthy :: "json \<Rightarrow> bool" where
  "truthy JNull = False"
| "truthy (JBool b) = b"
| "truthy (JInt n) = (n \<noteq> 0)"
| "truthy (JFloat q) = (q \<noteq> 0)"
| "truthy (JStr s) = (s \<noteq> [])"
| "truthy (JArr xs) = (xs \<noteq> [])"
| "truthy (JObj kvs) = (kvs \<noteq> [])"

subsection \<open>String formatting\<close>

text \<open>\<^verbatim>\<open>str(n)\<close> for a natural number.\<close>

definition digit_char :: "nat \<Rightarrow> char" where
  "digit_char d = ''0123456789'' ! (d mod 10)"

fun dec :: "nat \<Rightarrow> string" where
  "dec n = (if n < 10 then [digit_char n] else dec (n div 10) @ [digit_char (n mod 10)])"

declare dec.simps [simp del]

text \<open>
  \<^verbatim>\<open>format(n, '02d')\<close> for an integer: zero-padded to width two, the sign counting
  towards the width.
\<close>

definition int_02d :: "int \<Rightarrow> string" where
  "int_02d n =
     (if n < 0 then CHR ''-'' # dec (nat (- n))
      else if n < 10 then CHR ''0'' # dec (nat n)
      else dec (nat n))"

text \<open>
  The format specification \<^verbatim>\<open>:02d\<close> applied to an arbitrary value: integers (and
  booleans, a subclass of \<^verbatim>\<open>int\<close>) are formatted; \<^verbatim>\<open>str\<close> and \<^verbatim>\<open>float\<close> raise
  \<^verbatim>\<open>ValueError\<close>; \<^verbatim>\<open>None\<close>, lists and dictionaries raise \<^verbatim>\<open>TypeError\<close>.
\<close>

fun format_02d :: "json \<Rightarrow> error + string" where
  "format_02d (JInt n) = Inr (int_02d n)"
| "format_02d (JBool b) = Inr (int_02d (if b then 1 else 0))"
| "format_02d (JFloat q) = Inl ValueError"
| "format_02d (JStr s) = Inl ValueError"
| "format_02d JNull = Inl TypeError"
| "format_02d (JArr xs) = Inl TypeError"
| "format_02d (JObj kvs) = Inl TypeError"

subsection \<open>The Hub client and the world\<close>

text \<open>
  What \<^verbatim>\<open>CommitOperationAdd\<close> carries: the path in the repository and the bytes. The
  bytes are either encoded text or the \<^verbatim>\<open>json.dumps\<close> serialisation of a dictionary,
  kept as the dictionary it serialises. Strings are byte lists here, so every string has
  its UTF-8 encoding and \<^verbatim>\<open>encode('utf-8')\<close> does not fail.
\<close>

datatype payload = TextBytes string | JsonBytes pydict

record operation =
  path_in_repo :: string
  path_or_fileobj :: payload

record commit =
  repo_id :: string
  repo_type :: string
  operations :: "operation list"
  commit_message :: string

text \<open>
  What \<^verbatim>\<open>HfApi.create_commit\<close> can do: return, or raise. \<^verbatim>\<open>RepositoryNotFoundError\<close> is
  a subclass of \<^verbatim>\<open>HfHubHTTPError\<close>; both carry the attribute \<^verbatim>\<open>response\<close> (its status
  code, or \<^verbatim>\<open>None\<close>) and every exception has its \<^verbatim>\<open>str\<close>.
\<close>

datatype hub_exn =
    RepositoryNotFoundError "int option" string
  | HfHubHTTPError "int option" string
  | OtherException string

datatype outcome = Committed | Raised hub_exn

datatype log_record =
    RetryWarning nat nat nat nat nat
  | PermanentlyFailed
  | BatchError
  | ReadError string
  | MarkWarning string

text \<open>
  Everything the code does to the outside, in the order it does it: a call of
  \<^verbatim>\<open>create_commit\<close> with what it did, a \<^verbatim>\<open>time.sleep\<close>, a record handed to the logger.
\<close>

datatype event = HubCall commit outcome | Sleep nat | Log log_record

text \<open>
  The world outside the function: the local file system (a directory lists its entries,
  a file holds JSON text, kept as the value it parses to, or text that does not parse),
  the heap of dictionary objects (chunks are passed by reference) with its allocation
  pointer, and the trace of events so far.
\<close>

datatype node = Dir "string list" | File "json option"

record world =
  fs :: "string \<Rightarrow> node option"
  objs :: "nat \<Rightarrow> pydict"
  next_obj :: nat
  trace :: "event list"

fun hub_calls :: "event list \<Rightarrow> (commit \<times> outcome) list" where
  "hub_calls [] = []"
| "hub_calls (HubCall c r # evs) = (c, r) # hub_calls evs"
| "hub_calls (Sleep n # evs) = hub_calls evs"
| "hub_calls (Log l # evs) = hub_calls evs"

text \<open>
  The service object. \<^verbatim>\<open>api\<close> is the Hub client or \<^verbatim>\<open>None\<close>; the client answers the
  \<open>n\<close>-th call made to the Hub (counted over the whole trace) with an outcome. The
  repository names come from \<^verbatim>\<open>Config\<close>, which is not part of the sources, and are
  fields here.
\<close>

record hf_service =
  token :: string
  api :: "(nat \<Rightarrow> outcome) option"
  raw_repo :: string
  cleaned_repo :: string
  chunked_repo :: string

definition is_configured :: "hf_service \<Rightarrow> bool" where
  "is_configured self = (token self \<noteq> [] \<and> api self \<noteq> None)"

definition create_commit :: "(nat \<Rightarrow> outcome) \<Rightarrow> commit \<Rightarrow> world \<Rightarrow> outcome \<times> world" where
  "create_commit hub c w =
     (let r = hub (length (hub_calls (trace w)))
      in (r, w\<lparr>trace := trace w @ [HubCall c r]\<rparr>))"

definition time_sleep :: "nat \<Rightarrow> world \<Rightarrow> world" where
  "time_sleep secs w = w\<lparr>trace := trace w @ [Sleep secs]\<rparr>"

definition log_emit :: "log_record \<Rightarrow> world \<Rightarrow> world" where
  "log_emit r w = w\<lparr>trace := trace w @ [Log r]\<rparr>"

text \<open>\<^verbatim>\<open>repo or default\<close>\<close>

definition repo_or :: "string option \<Rightarrow> string \<Rightarrow> string" where
  "repo_or repo_arg dflt = (case repo_arg of None \<Rightarrow> dflt | Some r \<Rightarrow> if r = [] then dflt else r)"

section \<open>\<^verbatim>\<open>HuggingFaceService.upload_chunks_batch\<close>\<close>

text \<open>The dictionary returned: the early \<^verbatim>\<open>{'success': False, 'error': ...}\<close> or the report.\<close>

record report =
  success :: bool
  message :: string
  repo :: string
  uploaded_count :: nat
  failed_count :: nat
  failed_chunks :: "string list"

datatype upload_result = Failure string | Report report

definition MAX_RETRIES :: nat where
  "MAX_RETRIES = 3"

text \<open>\<^verbatim>\<open>range(start, stop, step)\<close> for a positive step.\<close>

function py_range :: "nat \<Rightarrow> nat \<Rightarrow> nat \<Rightarrow> nat list" where
  "py_range start stop step =
     (if step = 0 \<or> stop \<le> start then [] else start # py_range (start + step) stop step)"
  by pat_completeness auto
termination
  by (relation "measure (\<lambda>(start, stop, step). stop - start)") auto

declare py_range.simps [simp del]

text \<open>
  The loop that fills \<^verbatim>\<open>operations\<close>: one \<^verbatim>\<open>CommitOperationAdd\<close> per chunk of the batch,
  named after \<^verbatim>\<open>chunk.get('chunk_index', 1)\<close>. The formatting is outside every
  \<^verbatim>\<open>try\<close>, so its exception leaves the function.
\<close>

definition chunk_filename :: "string \<Rightarrow> json \<Rightarrow> error + string" where
  "chunk_filename folder_name chunk_index =
     (case format_02d chunk_index of
        Inl e \<Rightarrow> Inl e
      | Inr s \<Rightarrow> Inr (folder_name @ ''/chunk_'' @ s @ ''.json''))"

fun build_operations :: "string \<Rightarrow> pydict list \<Rightarrow> error + operation list" where
  "build_operations folder_name [] = Inr []"
| "build_operations folder_name (chunk # rest) =
     (case chunk_filename folder_name (dict_get chunk ''chunk_index'' (JInt 1)) of
        Inl e \<Rightarrow> Inl e
      | Inr name \<Rightarrow>
          (case build_operations folder_name rest of
             Inl e \<Rightarrow> Inl e
           | Inr ops \<Rightarrow>
               Inr (\<lparr>path_in_repo = name, path_or_fileobj = JsonBytes chunk\<rparr> # ops)))"

text \<open>
  The loop of the two failure branches that appends one name per chunk of the batch to
  \<^verbatim>\<open>failed_chunks\<close>, named after \<^verbatim>\<open>chunk.get("chunk_index", "?")\<close>. It runs inside an
  \<^verbatim>\<open>except\<close> clause, so an exception of the formatting leaves the function.
\<close>

fun record_failed :: "string \<Rightarrow> pydict list \<Rightarrow> string list \<Rightarrow> error + string list" where
  "record_failed folder_name [] failed = Inr failed"
| "record_failed folder_name (chunk # rest) failed =
     (case chunk_filename folder_name (dict_get chunk ''chunk_index'' (JStr ''?'')) of
        Inl e \<Rightarrow> Inl e
      | Inr name \<Rightarrow> record_failed folder_name rest (failed @ [name]))"

text \<open>\<^verbatim>\<open>status.status_code if status is not None else 0\<close>\<close>

definition status_code_of :: "int option \<Rightarrow> int" where
  "status_code_of response = (case response of None \<Rightarrow> 0 | Some c \<Rightarrow> c)"

text \<open>The arguments of the \<^verbatim>\<open>create_commit\<close> call for one batch.\<close>

definition batch_commit :: "string \<Rightarrow> string \<Rightarrow> nat \<Rightarrow> nat list \<Rightarrow> operation list \<Rightarrow> commit" where
  "batch_commit folder_name target_repo batch_start batch ops =
     \<lparr>repo_id = target_repo, repo_type = ''dataset'', operations = ops,
      commit_message = ''Add chunks '' @ dec (batch_start + 1) @ ''-''
         @ dec (batch_start + length batch) @ '' for '' @ folder_name\<rparr>"

text \<open>
  The retry loop \<^verbatim>\<open>for attempt in range(1, MAX_RETRIES + 1)\<close> of one batch, over the
  attempts still to make. The accumulator is \<^verbatim>\<open>(uploaded_count, failed_chunks)\<close>. The loop
  ends by \<^verbatim>\<open>break\<close> (success, or a failure recorded) or by running out of attempts.
\<close>

fun retry_loop ::
  "(nat \<Rightarrow> outcome) \<Rightarrow> string \<Rightarrow> string \<Rightarrow> nat \<Rightarrow> nat list \<Rightarrow> operation list \<Rightarrow>
   nat list \<Rightarrow> nat \<times> string list \<Rightarrow> world \<Rightarrow> (error + nat \<times> string list) \<times> world" where
  "retry_loop hub folder_name target_repo batch_start batch ops [] acc w = (Inr acc, w)"
| "retry_loop hub folder_name target_repo batch_start batch ops (attempt # later) acc w =
     (case create_commit hub (batch_commit folder_name target_repo batch_start batch ops) w of
        (Committed, w1) \<Rightarrow> (Inr (fst acc + length batch, snd acc), w1)
      | (Raised (OtherException msg), w1) \<Rightarrow>
          if attempt < MAX_RETRIES
          then retry_loop hub folder_name target_repo batch_start batch ops later acc
                 (time_sleep (2 ^ attempt) w1)
          else (case record_failed folder_name (map (objs w1) batch) (snd acc) of
                  Inl e \<Rightarrow> (Inl e, w1)
                | Inr failed \<Rightarrow> (Inr (fst acc, failed), log_emit BatchError w1))
      | (Raised e, w1) \<Rightarrow>
          if status_code_of (case e of RepositoryNotFoundError r m \<Rightarrow> r
                                     | HfHubHTTPError r m \<Rightarrow> r
                                     | OtherException m \<Rightarrow> None) = 429
             \<or> attempt < MAX_RETRIES
          then retry_loop hub folder_name target_repo batch_start batch ops later acc
                 (time_sleep (2 ^ attempt)
                    (log_emit (RetryWarning (batch_start + 1) (batch_start + length batch)
                                 attempt MAX_RETRIES (2 ^ attempt)) w1))
          else (case record_failed folder_name (map (objs w1) batch) (snd acc) of
                  Inl e \<Rightarrow> (Inl e, w1)
                | Inr failed \<Rightarrow> (Inr (fst acc, failed), log_emit PermanentlyFailed w1)))"

text \<open>The body of \<^verbatim>\<open>for batch_start in range(0, len(chunks), batch_size)\<close>.\<close>

definition upload_batch ::
  "(nat \<Rightarrow> outcome) \<Rightarrow> string \<Rightarrow> string \<Rightarrow> nat list \<Rightarrow> nat \<Rightarrow> nat \<Rightarrow>
   nat \<times> string list \<Rightarrow> world \<Rightarrow> (error + nat \<times> string list) \<times> world" where
  "upload_batch hub folder_name target_repo chunks batch_size batch_start acc w =
     (let batch = take batch_size (drop batch_start chunks)
      in case build_operations folder_name (map (objs w) batch) of
           Inl e \<Rightarrow> (Inl e, w)
         | Inr ops \<Rightarrow>
             retry_loop hub folder_name target_repo batch_start batch ops
               [1..<MAX_RETRIES + 1] acc w)"

fun batches_loop ::
  "(nat \<Rightarrow> outcome) \<Rightarrow> string \<Rightarrow> string \<Rightarrow> nat list \<Rightarrow> nat \<Rightarrow> nat list \<Rightarrow>
   nat \<times> string list \<Rightarrow> world \<Rightarrow> (error + nat \<times> string list) \<times> world" where
  "batches_loop hub folder_name target_repo chunks batch_size [] acc w = (Inr acc, w)"
| "batches_loop hub folder_name target_repo chunks batch_size (batch_start # later) acc w =
     (case upload_batch hub folder_name target_repo chunks batch_size batch_start acc w of
        (Inl e, w1) \<Rightarrow> (Inl e, w1)
      | (Inr acc1, w1) \<Rightarrow>
          batches_loop hub folder_name target_repo chunks batch_size later acc1 w1)"

text \<open>
  The method. \<^verbatim>\<open>chunks\<close> is the list of references to the chunk dictionaries.
  \<^verbatim>\<open>range(0, len(chunks), batch_size)\<close> raises \<^verbatim>\<open>ValueError\<close> for a zero step and is
  empty for a negative one.
\<close>

definition upload_chunks_batch ::
  "hf_service \<Rightarrow> string \<Rightarrow> nat list \<Rightarrow> string option \<Rightarrow> int \<Rightarrow> world \<Rightarrow>
   (error + upload_result) \<times> world" where
  "upload_chunks_batch self folder_name chunks repo_arg batch_size w =
     (case api self of
        None \<Rightarrow> (Inr (Failure ''HuggingFace not configured''), w)
      | Some hub \<Rightarrow>
          if \<not> is_configured self then (Inr (Failure ''HuggingFace not configured''), w)
          else if batch_size = 0 then (Inl ValueError, w)
          else
            (let target_repo = repo_or repo_arg (chunked_repo self)
             in case batches_loop hub folder_name target_repo chunks (nat batch_size)
                       (if batch_size < 0 then []
                        else py_range 0 (length chunks) (nat batch_size))
                       (0, []) w of
                  (Inl e, w1) \<Rightarrow> (Inl e, w1)
                | (Inr (uploaded, failed), w1) \<Rightarrow>
                    (Inr (Report
                       \<lparr>success = (length failed = 0),
                        message = ''Uploaded '' @ dec uploaded @ '' chunks (''
                           @ dec (length failed) @ '' failed) to '' @ target_repo,
                        repo = target_repo,
                        uploaded_count = uploaded,
                        failed_count = length failed,
                        failed_chunks = failed\<rparr>), w1)))"

section \<open>\<^verbatim>\<open>upload_raw_file\<close> and \<^verbatim>\<open>upload_cleaned_file\<close>\<close>





section \<open>The chunk section of the route \<^verbatim>\<open>push_to_huggingface\<close>\<close>

subsection \<open>The file system calls\<close>

text \<open>\<^verbatim>\<open>s.endswith(suffix)\<close>\<close>

definition endswith :: "string \<Rightarrow> string \<Rightarrow> bool" where
  "endswith s suf = (length suf \<le> length s \<and> drop (length s - length suf) s = suf)"

text \<open>\<^verbatim>\<open>os.path.join(a, b)\<close> on POSIX.\<close>

definition path_join :: "string \<Rightarrow> string \<Rightarrow> string" where
  "path_join a b =
     (if b \<noteq> [] \<and> hd b = CHR ''/'' then b
      else if a = [] \<or> last a = CHR ''/'' then a @ b
      else a @ ''/'' @ b)"

definition path_exists :: "world \<Rightarrow> string \<Rightarrow> bool" where
  "path_exists w p = (fs w p \<noteq> None)"

definition isdir :: "world \<Rightarrow> string \<Rightarrow> bool" where
  "isdir w p = (case fs w p of Some (Dir names) \<Rightarrow> True | _ \<Rightarrow> False)"

definition listdir :: "world \<Rightarrow> string \<Rightarrow> error + string list" where
  "listdir w p = (case fs w p of Some (Dir names) \<Rightarrow> Inr names | _ \<Rightarrow> Inl OSError)"

text \<open>\<^verbatim>\<open>open(path, 'r')\<close> followed by \<^verbatim>\<open>json.load\<close>.\<close>

definition json_load_file :: "world \<Rightarrow> string \<Rightarrow> error + json" where
  "json_load_file w p =
     (case fs w p of
        Some (File (Some j)) \<Rightarrow> Inr j
      | Some (File None) \<Rightarrow> Inl JSONDecodeError
      | _ \<Rightarrow> Inl OSError)"

text \<open>
  The key under which a value is stored in a Python dictionary: \<^verbatim>\<open>True\<close>, \<^verbatim>\<open>1\<close> and \<^verbatim>\<open>1.0\<close>
  are the same key; lists and dictionaries are unhashable.
\<close>

fun dict_key :: "json \<Rightarrow> error + json" where
  "dict_key JNull = Inr JNull"
| "dict_key (JBool b) = Inr (JInt (if b then 1 else 0))"
| "dict_key (JInt n) = Inr (JInt n)"
| "dict_key (JFloat q) = Inr (if q = of_int \<lfloor>q\<rfloor> then JInt \<lfloor>q\<rfloor> else JFloat q)"
| "dict_key (JStr s) = Inr (JStr s)"
| "dict_key (JArr xs) = Inl TypeError"
| "dict_key (JObj kvs) = Inl TypeError"

subsection \<open>The route\<close>

text \<open>\<^verbatim>\<open>results['chunked']\<close>; its key \<^verbatim>\<open>failed_chunks\<close> is the field \<open>all_failed_chunks\<close>.\<close>

record chunked_results =
  uploaded :: nat
  failed :: nat
  skipped :: nat
  files :: "string list"
  all_failed_chunks :: "string list"

text \<open>The two settings of \<^verbatim>\<open>Config\<close> the section reads; \<^verbatim>\<open>Config\<close> is not part of the
  sources.\<close>

record config =
  APPROVED_CHUNKED_DIR :: string
  HF_CHUNKED_REPO :: string

text \<open>
  The loop over \<^verbatim>\<open>sorted(os.listdir(folder_path))\<close> that collects the chunks not pushed
  yet. Its state is \<^verbatim>\<open>unpushed_chunks\<close> (references to the dictionaries \<^verbatim>\<open>json.load\<close>
  created), \<^verbatim>\<open>chunk_file_paths\<close> and the results. Every exception of the \<^verbatim>\<open>try\<close> block is
  caught and counted as failed; a value that is not a dictionary has no \<^verbatim>\<open>get\<close>.
\<close>

fun collect_unpushed ::
  "string \<Rightarrow> string list \<Rightarrow> nat list \<times> (json \<times> string) list \<times> chunked_results \<Rightarrow> world \<Rightarrow>
   (nat list \<times> (json \<times> string) list \<times> chunked_results) \<times> world" where
  "collect_unpushed folder_path [] st w = (st, w)"
| "collect_unpushed folder_path (chunk_file # rest) (unpushed, paths, res) w =
     (if \<not> endswith chunk_file ''.json''
      then collect_unpushed folder_path rest (unpushed, paths, res) w
      else
        (let chunk_path = path_join folder_path chunk_file
         in case json_load_file w chunk_path of
              Inl e \<Rightarrow>
                collect_unpushed folder_path rest
                  (unpushed, paths, res\<lparr>failed := failed res + 1\<rparr>)
                  (log_emit (ReadError chunk_path) w)
            | Inr (JObj d) \<Rightarrow>
                (let chunk_data = next_obj w;
                     w1 = w\<lparr>objs := (objs w)(chunk_data := d), next_obj := chunk_data + 1\<rparr>
                 in if truthy (dict_get d ''pushed_to_hf'' JNull)
                    then collect_unpushed folder_path rest
                           (unpushed, paths, res\<lparr>skipped := skipped res + 1\<rparr>) w1
                    else
                      (case dict_key (dict_get d ''chunk_index'' (JStr chunk_file)) of
                         Inl e \<Rightarrow>
                           collect_unpushed folder_path rest
                             (unpushed @ [chunk_data], paths, res\<lparr>failed := failed res + 1\<rparr>)
                             (log_emit (ReadError chunk_path) w1)
                       | Inr k \<Rightarrow>
                           collect_unpushed folder_path rest
                             (unpushed @ [chunk_data], AList.update k chunk_path paths, res) w1))
            | Inr other \<Rightarrow>
                collect_unpushed folder_path rest
                  (unpushed, paths, res\<lparr>failed := failed res + 1\<rparr>)
                  (log_emit (ReadError chunk_path) w)))"

text \<open>
  The loop that marks the chunks as pushed. \<^verbatim>\<open>failed_set\<close> is given as the list it is
  built from. The name of a chunk is formatted outside every \<^verbatim>\<open>try\<close>; writing the file
  is inside one.
\<close>

fun mark_pushed ::
  "string \<Rightarrow> string \<Rightarrow> string list \<Rightarrow> (json \<times> string) list \<Rightarrow> nat list \<Rightarrow> world \<Rightarrow>
   (error + unit) \<times> world" where
  "mark_pushed folder_name pushed_at failed_set paths [] w = (Inr (), w)"
| "mark_pushed folder_name pushed_at failed_set paths (chunk_data # rest) w =
     (let chunk_index = dict_get (objs w chunk_data) ''chunk_index'' JNull
      in case chunk_filename folder_name chunk_index of
           Inl e \<Rightarrow> (Inl e, w)
         | Inr chunk_key_name \<Rightarrow>
             if chunk_key_name \<in> set failed_set
             then mark_pushed folder_name pushed_at failed_set paths rest w
             else
               (case dict_key chunk_index of
                  Inl e \<Rightarrow> (Inl e, w)
                | Inr k \<Rightarrow>
                    (case map_of paths k of
                       None \<Rightarrow> mark_pushed folder_name pushed_at failed_set paths rest w
                     | Some chunk_path \<Rightarrow>
                         if chunk_path \<noteq> [] \<and> path_exists w chunk_path
                         then
                           (let marked = dict_set (objs w chunk_data) ''pushed_to_hf''
                                           (JStr pushed_at);
                                w1 = w\<lparr>objs := (objs w)(chunk_data := marked)\<rparr>
                            in case fs w1 chunk_path of
                                 Some (File old) \<Rightarrow>
                                   mark_pushed folder_name pushed_at failed_set paths rest
                                     (w1\<lparr>fs := (fs w1)(chunk_path \<mapsto> File (Some (JObj marked)))\<rparr>)
                               | _ \<Rightarrow>
                                   mark_pushed folder_name pushed_at failed_set paths rest
                                     (log_emit (MarkWarning chunk_path) w1))
                         else mark_pushed folder_name pushed_at failed_set paths rest w)))"

text \<open>\<^verbatim>\<open>result.get('uploaded_count', 0)\<close>, \<^verbatim>\<open>result.get('failed_count', 0)\<close> and
  \<^verbatim>\<open>result.get('failed_chunks', [])\<close>.\<close>

definition result_uploaded_count :: "upload_result \<Rightarrow> nat" where
  "result_uploaded_count r = (case r of Failure m \<Rightarrow> 0 | Report rep \<Rightarrow> uploaded_count rep)"

definition result_failed_count :: "upload_result \<Rightarrow> nat" where
  "result_failed_count r = (case r of Failure m \<Rightarrow> 0 | Report rep \<Rightarrow> failed_count rep)"

definition result_failed_chunks :: "upload_result \<Rightarrow> string list" where
  "result_failed_chunks r = (case r of Failure m \<Rightarrow> [] | Report rep \<Rightarrow> failed_chunks rep)"

text \<open>The updates of \<^verbatim>\<open>results['chunked']\<close> from the result of the upload.\<close>

definition record_result :: "string \<Rightarrow> upload_result \<Rightarrow> chunked_results \<Rightarrow> chunked_results" where
  "record_result folder_name result res1 =
     (let res2 = res1
            \<lparr>uploaded := uploaded res1 + result_uploaded_count result,
             failed := failed res1 + result_failed_count result,
             all_failed_chunks := all_failed_chunks res1 @ result_failed_chunks result\<rparr>
      in if result_uploaded_count result > 0
         then res2\<lparr>files := files res2 @
                [folder_name @ '' ('' @ dec (result_uploaded_count result) @ '' chunks)'']\<rparr>
         else res2)"

text \<open>
  The body of \<^verbatim>\<open>for folder_name in sorted(os.listdir(Config.APPROVED_CHUNKED_DIR))\<close>.
  \<^verbatim>\<open>target_filename\<close> is the per-file filter, \<^verbatim>\<open>repo\<close> the repository of the request and
  \<^verbatim>\<open>utcnow\<close> gives \<^verbatim>\<open>datetime.utcnow().isoformat()\<close> as read while the folder is processed.
  An exception here is caught by the route's outer \<^verbatim>\<open>try\<close>, which answers with status 500.
\<close>

definition push_folder ::
  "hf_service \<Rightarrow> config \<Rightarrow> string option \<Rightarrow> string \<Rightarrow> (string \<Rightarrow> string) \<Rightarrow> string \<Rightarrow>
   chunked_results \<Rightarrow> world \<Rightarrow> (error + chunked_results) \<times> world" where
  "push_folder hf_service cfg target_filename repo_name utcnow folder_name res w =
     (let folder_path = path_join (APPROVED_CHUNKED_DIR cfg) folder_name
      in if \<not> isdir w folder_path then (Inr res, w)
         else if (case target_filename of None \<Rightarrow> False
                  | Some t \<Rightarrow> t \<noteq> [] \<and> folder_name \<noteq> t) then (Inr res, w)
         else
           (case listdir w folder_path of
              Inl e \<Rightarrow> (Inl e, w)
            | Inr names \<Rightarrow>
                (case collect_unpushed folder_path (sort names) ([], [], res) w of
                   ((unpushed_chunks, chunk_file_paths, res1), w1) \<Rightarrow>
                     if unpushed_chunks = [] then (Inr res1, w1)
                     else
                       (case upload_chunks_batch hf_service folder_name unpushed_chunks
                               (Some repo_name) 50 w1 of
                          (Inl e, w2) \<Rightarrow> (Inl e, w2)
                        | (Inr result, w2) \<Rightarrow>
                            (let res3 = record_result folder_name result res1;
                                 pushed_at = utcnow folder_name @ ''Z''
                             in case mark_pushed folder_name pushed_at
                                       (result_failed_chunks result) chunk_file_paths
                                       unpushed_chunks w2 of
                                  (Inl e, w3) \<Rightarrow> (Inl e, w3)
                                | (Inr u, w3) \<Rightarrow> (Inr res3, w3))))))"

fun folders_loop ::
  "hf_service \<Rightarrow> config \<Rightarrow> string option \<Rightarrow> string \<Rightarrow> (string \<Rightarrow> string) \<Rightarrow> string list \<Rightarrow>
   chunked_results \<Rightarrow> world \<Rightarrow> (error + chunked_results) \<times> world" where
  "folders_loop hf_service cfg target_filename repo_name utcnow [] res w = (Inr res, w)"
| "folders_loop hf_service cfg target_filename repo_name utcnow (folder_name # rest) res w =
     (case push_folder hf_service cfg target_filename repo_name utcnow folder_name res w of
        (Inl e, w1) \<Rightarrow> (Inl e, w1)
      | (Inr res1, w1) \<Rightarrow>
          folders_loop hf_service cfg target_filename repo_name utcnow rest res1 w1)"

text \<open>
  The section \<^verbatim>\<open>if push_type in ['chunked', 'all']\<close> of the route, from the results so
  far. \<^verbatim>\<open>data_chunked_repo\<close> is \<^verbatim>\<open>data.get('chunked_repo')\<close>.
\<close>

definition push_chunked ::
  "hf_service \<Rightarrow> config \<Rightarrow> string \<Rightarrow> string option \<Rightarrow> string option \<Rightarrow> (string \<Rightarrow> string) \<Rightarrow>
   chunked_results \<Rightarrow> world \<Rightarrow> (error + chunked_results) \<times> world" where
  "push_chunked hf_service cfg push_type target_filename data_chunked_repo utcnow res w =
     (if push_type = ''chunked'' \<or> push_type = ''all''
      then
        (let repo_name = repo_or data_chunked_repo (HF_CHUNKED_REPO cfg)
         in if path_exists w (APPROVED_CHUNKED_DIR cfg)
            then
              (case listdir w (APPROVED_CHUNKED_DIR cfg) of
                 Inl e \<Rightarrow> (Inl e, w)
               | Inr names \<Rightarrow>
                   folders_loop hf_service cfg target_filename repo_name utcnow
                     (sort names) res w)
            else (Inr res, w))
      else (Inr res, w))"

section \<open>Vocabulary of the statements\<close>

text \<open>The integer a chunk index denotes, when it is one (a boolean is an \<^verbatim>\<open>int\<close>).\<close>

fun ordinal_of :: "json \<Rightarrow> int option" where
  "ordinal_of (JInt n) = Some n"
| "ordinal_of (JBool b) = Some (if b then 1 else 0)"
| "ordinal_of v = None"

text \<open>
  A trace read as attempts and waits, log records left out; the schedule of a retry loop
  that never succeeds; the sleeps of a trace.
\<close>

datatype step = Attempt | Wait nat

fun steps_of :: "event list \<Rightarrow> step list" where
  "steps_of [] = []"
| "steps_of (HubCall c r # evs) = Attempt # steps_of evs"
| "steps_of (Sleep n # evs) = Wait n # steps_of evs"
| "steps_of (Log l # evs) = steps_of evs"

definition backoff_schedule :: "nat list \<Rightarrow> step list" where
  "backoff_schedule attempts = concat (map (\<lambda>attempt. [Attempt, Wait (2 ^ attempt)]) attempts)"

fun sleeps_of :: "event list \<Rightarrow> nat list" where
  "sleeps_of [] = []"
| "sleeps_of (Sleep n # evs) = n # sleeps_of evs"
| "sleeps_of (HubCall c r # evs) = sleeps_of evs"
| "sleeps_of (Log l # evs) = sleeps_of evs"

text \<open>
  The operation that carries a chunk under the remote layout
  \<^verbatim>\<open>{folder_name}/chunk_{chunk_index:02d}.json\<close>.
\<close>

definition op_of_chunk :: "string \<Rightarrow> pydict \<Rightarrow> operation \<Rightarrow> bool" where
  "op_of_chunk g d op \<longleftrightarrow>
     (\<exists>n. ordinal_of (dict_get d ''chunk_index'' (JInt 1)) = Some n
          \<and> path_in_repo op = g @ ''/chunk_'' @ int_02d n @ ''.json'')
     \<and> path_or_fileobj op = JsonBytes d"

text \<open>
  A chunk dictionary is marked when its \<^verbatim>\<open>pushed_to_hf\<close> is truthy, as the route tests it;
  a path is a marked file when it holds such a dictionary. An operation carries an unmarked
  chunk; a folder is selected by the per-file filter; an operation carries the content of
  an unmarked \<^verbatim>\<open>.json\<close> file of a folder.
\<close>

definition marked :: "pydict \<Rightarrow> bool" where
  "marked d = truthy (dict_get d ''pushed_to_hf'' JNull)"

definition marked_file :: "world \<Rightarrow> string \<Rightarrow> bool" where
  "marked_file w p =
     (case fs w p of Some (File (Some (JObj d))) \<Rightarrow> marked d | _ \<Rightarrow> False)"

definition carries_unmarked :: "operation \<Rightarrow> bool" where
  "carries_unmarked op =
     (case path_or_fileobj op of JsonBytes d \<Rightarrow> \<not> marked d | TextBytes s \<Rightarrow> False)"

definition selected :: "string option \<Rightarrow> string \<Rightarrow> bool" where
  "selected target_filename folder_name =
     (case target_filename of None \<Rightarrow> True | Some t \<Rightarrow> t = [] \<or> folder_name = t)"

definition from_unmarked_file :: "world \<Rightarrow> string \<Rightarrow> operation \<Rightarrow> bool" where
  "from_unmarked_file w folder_path op \<longleftrightarrow>
     (\<exists>f d. endswith f ''.json'' \<and> fs w (path_join folder_path f) = Some (File (Some (JObj d)))
            \<and> \<not> marked d \<and> path_or_fileobj op = JsonBytes d)"

subsection \<open>Concrete inputs\<close>

text \<open>
  A configured service over a given Hub, a world whose heap holds the given chunk
  dictionaries at the references \<open>0, 1, \<dots>\<close>, a world whose chunk \<open>r\<close> has index \<open>r + 1\<close>,
  and three Hubs: one that always answers 429, one that always answers 503, one that
  cannot be reached.
\<close>

definition ex_service :: "(nat \<Rightarrow> outcome) \<Rightarrow> hf_service" where
  "ex_service hub =
     \<lparr>token = ''hf_token'', api = Some hub, raw_repo = ''org/raw'',
      cleaned_repo = ''org/cleaned'', chunked_repo = ''org/chunked''\<rparr>"

definition ex_heap :: "pydict list \<Rightarrow> world" where
  "ex_heap ds =
     \<lparr>fs = (\<lambda>p. None), objs = (\<lambda>r. if r < length ds then ds ! r else []),
      next_obj = length ds, trace = []\<rparr>"


definition rate_limited :: "nat \<Rightarrow> outcome" where
  "rate_limited n = Raised (HfHubHTTPError (Some 429) ''429 Too Many Requests'')"

definition unavailable :: "nat \<Rightarrow> outcome" where
  "unavailable n = Raised (HfHubHTTPError (Some 503) ''503 Service Unavailable'')"

definition unreachable :: "nat \<Rightarrow> outcome" where
  "unreachable n = Raised (OtherException ''connection reset'')"

text \<open>
  A local store with one folder of two chunk files, the first already marked as pushed,
  and a file that is not JSON; the same store after \<^verbatim>\<open>json.load\<close> of the second chunk.
\<close>

definition ex_config :: config where
  "ex_config = \<lparr>APPROVED_CHUNKED_DIR = ''approved'', HF_CHUNKED_REPO = ''org/chunked''\<rparr>"

definition ex_store :: world where
  "ex_store =
     \<lparr>fs = [''approved'' \<mapsto> Dir [''doc''],
             ''approved/doc'' \<mapsto> Dir [''chunk_02.json'', ''chunk_01.json'', ''notes.txt''],
             ''approved/doc/chunk_01.json'' \<mapsto>
                File (Some (JObj [(''chunk_index'', JInt 1), (''text'', JStr ''a''),
                                  (''pushed_to_hf'', JStr ''2026-01-01T00:00:00Z'')])),
             ''approved/doc/chunk_02.json'' \<mapsto>
                File (Some (JObj [(''chunk_index'', JInt 2), (''text'', JStr ''b'')]))],
      objs = (\<lambda>r. []), next_obj = 0, trace = []\<rparr>"


text \<open>Empty results and a clock for the route.\<close>

definition no_results :: chunked_results where
  "no_results = \<lparr>uploaded = 0, failed = 0, skipped = 0, files = [], all_failed_chunks = []\<rparr>"

definition ex_clock :: "string \<Rightarrow> string" where
  "ex_clock folder_name = ''2026-11-03T10:00:00''"

section \<open>Lemmas\<close>

subsection \<open>Traces\<close>

lemma hub_calls_append [simp]: "hub_calls (xs @ ys) = hub_calls xs @ hub_calls ys"
  by (induction xs rule: hub_calls.induct) simp_all

lemma steps_of_append [simp]: "steps_of (xs @ ys) = steps_of xs @ steps_of ys"
  by (induction xs rule: steps_of.induct) simp_all

lemma record_failed_length:
  "record_failed folder_name ds fl = Inr fl' \<Longrightarrow> length fl' = length fl + length ds"
  by (induction ds arbitrary: fl) (auto split: sum.splits)

lemma retry_loop_frame:
  "retry_loop hub f t bstart batch ops attempts acc w = (res, w') \<Longrightarrow>
     fs w' = fs w \<and> objs w' = objs w \<and> next_obj w' = next_obj w"
proof (induction attempts arbitrary: acc w)
  case Nil
  then show ?case by simp
next
  case (Cons a attempts)
  from Cons.prems show ?case
    by (auto simp: create_commit_def time_sleep_def log_emit_def Let_def
          split: outcome.splits hub_exn.splits if_splits sum.splits
          dest!: Cons.IH)
qed

lemma retry_loop_steps:
  "retry_loop hub f t bstart batch ops attempts acc w = (res, w') \<Longrightarrow>
     \<exists>evs. trace w' = trace w @ evs \<and> prefix (steps_of evs) (backoff_schedule attempts)"
proof (induction attempts arbitrary: acc w)
  case Nil
  then show ?case by simp
next
  case (Cons a attempts)
  from Cons.prems show ?case
    by (auto simp: create_commit_def time_sleep_def log_emit_def Let_def backoff_schedule_def
          split: outcome.splits hub_exn.splits if_splits sum.splits
          dest!: Cons.IH)
qed

lemma retry_loop_count:
  "retry_loop hub f t bstart batch ops attempts (u, fl) w = (Inr (u', fl'), w') \<Longrightarrow>
     (u' = u + length batch \<and> fl' = fl) \<or> (u' = u \<and> length fl' = length fl + length batch)
     \<or> (u' = u \<and> fl' = fl)"
proof (induction attempts arbitrary: w)
  case Nil
  then show ?case by simp
next
  case (Cons a attempts)
  from Cons.prems show ?case
    by (auto simp: create_commit_def time_sleep_def log_emit_def Let_def
          split: outcome.splits hub_exn.splits if_splits sum.splits
          dest!: Cons.IH record_failed_length)
qed


lemma upload_batch_frame:
  "upload_batch hub f t chunks bs bstart acc w = (res, w') \<Longrightarrow>
     fs w' = fs w \<and> objs w' = objs w \<and> next_obj w' = next_obj w"
  by (auto simp: upload_batch_def Let_def split: sum.splits dest: retry_loop_frame)

lemma upload_batch_trace:
  "upload_batch hub f t chunks bs bstart acc w = (res, w') \<Longrightarrow> \<exists>evs. trace w' = trace w @ evs"
  by (auto simp: upload_batch_def Let_def split: sum.splits dest: retry_loop_steps)

lemma batches_loop_frame:
  "batches_loop hub f t chunks bs starts acc w = (res, w') \<Longrightarrow>
     fs w' = fs w \<and> objs w' = objs w \<and> next_obj w' = next_obj w \<and> (\<exists>evs. trace w' = trace w @ evs)"
proof (induction starts arbitrary: acc w)
  case Nil
  then show ?case by simp
next
  case (Cons st starts)
  obtain r1 w1 where ub: "upload_batch hub f t chunks bs st acc w = (r1, w1)"
    by (cases "upload_batch hub f t chunks bs st acc w")
  from upload_batch_frame [OF ub] upload_batch_trace [OF ub]
  obtain evs1 where w1: "fs w1 = fs w" "objs w1 = objs w" "next_obj w1 = next_obj w"
    "trace w1 = trace w @ evs1" by blast
  show ?case
  proof (cases r1)
    case (Inl e)
    with Cons.prems ub w1 show ?thesis by auto
  next
    case (Inr acc1)
    with Cons.prems ub have "batches_loop hub f t chunks bs starts acc1 w1 = (res, w')" by simp
    from Cons.IH [OF this] w1 show ?thesis by auto
  qed
qed

lemma upload_batch_count:
  "upload_batch hub f t chunks bs bstart (u, fl) w = (Inr (u', fl'), w') \<Longrightarrow>
     u' + length fl' \<le> u + length fl + length (take bs (drop bstart chunks))"
  by (auto simp: upload_batch_def Let_def split: sum.splits dest!: retry_loop_count)

lemma batches_loop_count:
  "batches_loop hub f t chunks bs starts (u, fl) w = (Inr (u', fl'), w') \<Longrightarrow>
     u' + length fl' \<le> u + length fl + (\<Sum>st\<leftarrow>starts. length (take bs (drop st chunks)))"
proof (induction starts arbitrary: u fl w)
  case Nil
  then show ?case by simp
next
  case (Cons st starts)
  obtain r1 w1 where ub: "upload_batch hub f t chunks bs st (u, fl) w = (r1, w1)"
    by (cases "upload_batch hub f t chunks bs st (u, fl) w")
  show ?case
  proof (cases r1)
    case (Inl e)
    with Cons.prems ub show ?thesis by simp
  next
    case (Inr acc1)
    obtain u1 fl1 where acc1: "acc1 = (u1, fl1)" by (cases acc1)
    from Inr acc1 Cons.prems ub
    have "batches_loop hub f t chunks bs starts (u1, fl1) w1 = (Inr (u', fl'), w')" by simp
    from Cons.IH [OF this] upload_batch_count [OF ub [unfolded Inr acc1]]
    show ?thesis by simp
  qed
qed

lemma py_range_Nil: "stop \<le> start \<Longrightarrow> py_range start stop step = []"
  by (simp add: py_range.simps)

lemma py_range_Cons:
  "0 < step \<Longrightarrow> start < stop \<Longrightarrow>
     py_range start stop step = start # py_range (start + step) stop step"
  by (subst py_range.simps) simp

lemma py_range_concat:
  assumes "0 < bs"
  shows "concat (map (\<lambda>st. take bs (drop st xs)) (py_range s (length xs) bs)) = drop s xs"
proof (induction "length xs - s" arbitrary: s rule: less_induct)
  case less
  show ?case
  proof (cases "length xs \<le> s")
    case True
    then show ?thesis by (simp add: py_range_Nil)
  next
    case False
    then have cons: "py_range s (length xs) bs = s # py_range (s + bs) (length xs) bs"
      using assms by (simp add: py_range_Cons)
    have "length xs - (s + bs) < length xs - s" using False assms by simp
    then have ih: "concat (map (\<lambda>st. take bs (drop st xs)) (py_range (s + bs) (length xs) bs))
                     = drop (s + bs) xs"
      by (rule less)
    have "take bs (drop s xs) @ drop (s + bs) xs = drop s xs"
      by (metis add.commute append_take_drop_id drop_drop)
    then show ?thesis by (simp add: cons ih)
  qed
qed


lemma py_range_sum:
  assumes "0 < bs"
  shows "(\<Sum>st\<leftarrow>py_range s (length xs) bs. length (take bs (drop st xs))) = length xs - s"
proof -
  have "(\<Sum>st\<leftarrow>py_range s (length xs) bs. length (take bs (drop st xs)))
          = length (concat (map (\<lambda>st. take bs (drop st xs)) (py_range s (length xs) bs)))"
    by (simp add: length_concat comp_def)
  then show ?thesis by (simp add: py_range_concat [OF assms])
qed



lemma format_02d_Inr: "format_02d v = Inr s \<longleftrightarrow> (\<exists>n. ordinal_of v = Some n \<and> s = int_02d n)"
  by (cases v) auto





lemma upload_chunks_batch_frame:
  "upload_chunks_batch self f chunks repo_arg bs w = (res, w') \<Longrightarrow>
     fs w' = fs w \<and> objs w' = objs w \<and> next_obj w' = next_obj w \<and> (\<exists>evs. trace w' = trace w @ evs)"
  by (auto simp: upload_chunks_batch_def Let_def split: option.splits if_splits prod.splits sum.splits
        dest!: batches_loop_frame)

lemma upload_chunks_batch_count:
  assumes "upload_chunks_batch self f chunks repo_arg bs w = (Inr (Report rep), w')"
  shows "uploaded_count rep + failed_count rep \<le> length chunks"
    and "failed_count rep = length (failed_chunks rep)"
    and "success rep \<longleftrightarrow> failed_chunks rep = []"
proof -
  from assms obtain hub u fl where
    run: "batches_loop hub f (repo_or repo_arg (chunked_repo self)) chunks (nat bs)
            (if bs < 0 then [] else py_range 0 (length chunks) (nat bs)) (0, []) w
          = (Inr (u, fl), w')"
    and rep: "uploaded_count rep = u" "failed_count rep = length fl" "failed_chunks rep = fl"
       "success rep = (length fl = 0)"
    and bs: "bs \<noteq> 0"
    by (auto simp: upload_chunks_batch_def Let_def
          split: option.splits if_splits prod.splits sum.splits)
  from batches_loop_count [OF run]
  have "u + length fl \<le> (\<Sum>st\<leftarrow>(if bs < 0 then [] else py_range 0 (length chunks) (nat bs)).
                            length (take (nat bs) (drop st chunks)))" by simp
  also have "\<dots> \<le> length chunks"
  proof (cases "bs < 0")
    case True
    then show ?thesis by simp
  next
    case False
    with bs have "0 < nat bs" by simp
    from py_range_sum [OF this, where xs = chunks and s = 0] False show ?thesis by simp
  qed
  finally show "uploaded_count rep + failed_count rep \<le> length chunks" using rep by simp
  show "failed_count rep = length (failed_chunks rep)" using rep by simp
  show "success rep \<longleftrightarrow> failed_chunks rep = []" using rep by simp
qed

lemma retry_loop_calls:
  "retry_loop hub f t bstart batch ops attempts acc w = (res, w') \<Longrightarrow>
     \<exists>evs. trace w' = trace w @ evs \<and> (\<forall>(c, out)\<in>set (hub_calls evs). operations c = ops)"
proof (induction attempts arbitrary: acc w)
  case Nil
  then show ?case by simp
next
  case (Cons a attempts)
  from Cons.prems show ?case
    by (auto simp: create_commit_def time_sleep_def log_emit_def Let_def batch_commit_def
          split: outcome.splits hub_exn.splits if_splits sum.splits
          dest!: Cons.IH)
qed

lemma upload_chunks_batch_world:
  "upload_chunks_batch self f chunks repo_arg bs w = (res, w') \<Longrightarrow>
     w' = w \<or> (\<exists>hub t starts r0. batches_loop hub f t chunks (nat bs) starts (0, []) w = (r0, w'))"
  by (auto simp: upload_chunks_batch_def Let_def split: option.splits if_splits prod.splits sum.splits)

lemma sleeps_of_append [simp]: "sleeps_of (xs @ ys) = sleeps_of xs @ sleeps_of ys"
  by (induction xs rule: sleeps_of.induct) simp_all

lemma retry_loop_schedule:
  "retry_loop hub f t bstart batch ops attempts acc w = (res, w') \<Longrightarrow>
     \<exists>evs. trace w' = trace w @ evs
       \<and> prefix (steps_of evs) (backoff_schedule attempts)
       \<and> length (hub_calls evs) \<le> length attempts
       \<and> prefix (sleeps_of evs) (map (\<lambda>attempt. 2 ^ attempt) attempts)"
proof (induction attempts arbitrary: acc w)
  case Nil
  then show ?case by (simp add: backoff_schedule_def)
next
  case (Cons a attempts)
  from Cons.prems show ?case
    by (auto simp: create_commit_def time_sleep_def log_emit_def Let_def backoff_schedule_def
          split: outcome.splits hub_exn.splits if_splits sum.splits
          dest!: Cons.IH)
qed

lemma prefix_248:
  "prefix xs [2, 4, 8 :: nat] \<Longrightarrow>
     sorted_wrt (<) xs \<and> xs = map (\<lambda>attempt. 2 ^ attempt) [1..<Suc (length xs)]"
  by (auto simp: prefix_Cons)




subsection \<open>Remote paths\<close>

lemma build_operations_ops:
  "build_operations g ds = Inr ops \<Longrightarrow> list_all2 (op_of_chunk g) ds ops"
proof (induction ds arbitrary: ops)
  case Nil
  then show ?case by simp
next
  case (Cons d ds)
  then show ?case
    by (auto simp: chunk_filename_def op_of_chunk_def format_02d_Inr split: sum.splits)
qed

lemma upload_batch_ops:
  assumes "upload_batch hub g t chunks bs bstart acc w = (res, w')"
  shows "\<exists>evs. trace w' = trace w @ evs \<and>
           (\<forall>(c, out)\<in>set (hub_calls evs). \<forall>op\<in>set (operations c).
               \<exists>r\<in>set chunks. op_of_chunk g (objs w r) op)"
proof (cases "build_operations g (map (objs w) (take bs (drop bstart chunks)))")
  case (Inl e)
  with assms show ?thesis by (simp add: upload_batch_def)
next
  case (Inr ops)
  from build_operations_ops [OF Inr]
  have "list_all2 (op_of_chunk g) (map (objs w) (take bs (drop bstart chunks))) ops" .
  then have "\<forall>op\<in>set ops. \<exists>d\<in>set (map (objs w) (take bs (drop bstart chunks))). op_of_chunk g d op"
    by (metis in_set_conv_nth list_all2_conv_all_nth)
  then have ops: "\<forall>op\<in>set ops. \<exists>r\<in>set chunks. op_of_chunk g (objs w r) op"
    by (fastforce dest: in_set_takeD in_set_dropD)
  from assms Inr have "retry_loop hub g t bstart (take bs (drop bstart chunks)) ops
                         [1..<MAX_RETRIES + 1] acc w = (res, w')"
    by (simp add: upload_batch_def)
  from retry_loop_calls [OF this] ops show ?thesis by fastforce
qed

lemma batches_loop_ops:
  "batches_loop hub g t chunks bs starts acc w = (res, w') \<Longrightarrow>
     \<exists>evs. trace w' = trace w @ evs \<and>
           (\<forall>(c, out)\<in>set (hub_calls evs). \<forall>op\<in>set (operations c).
               \<exists>r\<in>set chunks. op_of_chunk g (objs w r) op)"
proof (induction starts arbitrary: acc w)
  case Nil
  then show ?case by simp
next
  case (Cons st starts)
  obtain r1 w1 where ub: "upload_batch hub g t chunks bs st acc w = (r1, w1)"
    by (cases "upload_batch hub g t chunks bs st acc w")
  from upload_batch_ops [OF ub] obtain evs1 where
    evs1: "trace w1 = trace w @ evs1"
      "\<forall>(c, out)\<in>set (hub_calls evs1). \<forall>op\<in>set (operations c).
               \<exists>r\<in>set chunks. op_of_chunk g (objs w r) op" by blast
  show ?case
  proof (cases r1)
    case (Inl e)
    with Cons.prems ub evs1 show ?thesis by auto
  next
    case (Inr acc1)
    with Cons.prems ub have "batches_loop hub g t chunks bs starts acc1 w1 = (res, w')" by simp
    from Cons.IH [OF this] obtain evs2 where
      evs2: "trace w' = trace w1 @ evs2"
      "\<forall>(c, out)\<in>set (hub_calls evs2). \<forall>op\<in>set (operations c).
               \<exists>r\<in>set chunks. op_of_chunk g (objs w1 r) op" by blast
    have "objs w1 = objs w" using upload_batch_frame [OF ub] by simp
    with evs1 evs2 show ?thesis
      by (intro exI [of _ "evs1 @ evs2"]) auto
  qed
qed

lemma upload_chunks_batch_ops:
  assumes "upload_chunks_batch self g chunks repo_arg bs w = (res, w')"
  shows "\<exists>evs. trace w' = trace w @ evs \<and>
           (\<forall>(c, out)\<in>set (hub_calls evs). \<forall>op\<in>set (operations c).
               \<exists>r\<in>set chunks. op_of_chunk g (objs w r) op)"
  using upload_chunks_batch_world [OF assms]
proof
  assume "w' = w"
  then show ?thesis by (intro exI [of _ "[]"]) simp
next
  assume "\<exists>hub t starts r0. batches_loop hub g t chunks (nat bs) starts (0, []) w = (r0, w')"
  then show ?thesis by (auto dest!: batches_loop_ops)
qed





subsection \<open>Marking\<close>


lemma dict_get_set_other: "k' \<noteq> k \<Longrightarrow> dict_get (dict_set d k v) k' dflt = dict_get d k' dflt"
  by (simp add: dict_get_def dict_set_def update_conv')


subsection \<open>Collecting the chunks not pushed yet\<close>

lemma json_load_file_cases:
  "json_load_file w p = Inr (JObj d) \<longleftrightarrow> fs w p = Some (File (Some (JObj d)))"
  by (auto simp: json_load_file_def split: option.splits node.splits)

lemma collect_unpushed_frame:
  "collect_unpushed fp names (u, ps, res) w = ((u', ps', res'), w') \<Longrightarrow>
     fs w' = fs w \<and> next_obj w \<le> next_obj w' \<and> (\<forall>r<next_obj w. objs w' r = objs w r)
     \<and> (\<exists>evs. trace w' = trace w @ evs \<and> hub_calls evs = [])
     \<and> uploaded res' = uploaded res"
proof (induction names arbitrary: u ps res w)
  case Nil
  then show ?case by simp
next
  case (Cons f rest)
  show ?case
  proof (cases "endswith f ''.json''")
    case False
    with Cons.prems have "collect_unpushed fp rest (u, ps, res) w = ((u', ps', res'), w')" by simp
    from Cons.IH [OF this] show ?thesis .
  next
    case True
    from True Cons.prems show ?thesis
      by (auto simp: Let_def log_emit_def split: sum.splits json.splits if_splits dest!: Cons.IH)
  qed
qed


lemma marked_file_update [simp]:
  "marked_file (w\<lparr>trace := t\<rparr>) p = marked_file w p"
  "marked_file (w\<lparr>objs := h\<rparr>) p = marked_file w p"
  "marked_file (w\<lparr>next_obj := n\<rparr>) p = marked_file w p"
  by (simp_all add: marked_file_def)

lemma collect_unpushed_Cons_cases [consumes 1, case_names skip unreadable pushed unhashable fresh]:
  assumes "collect_unpushed fp (f # rest) (u, ps, res) w = (st', w')"
  obtains
    "\<not> endswith f ''.json''"
    "collect_unpushed fp rest (u, ps, res) w = (st', w')"
  | "endswith f ''.json''"
    "\<forall>d. fs w (path_join fp f) \<noteq> Some (File (Some (JObj d)))"
    "collect_unpushed fp rest (u, ps, res\<lparr>failed := failed res + 1\<rparr>)
       (log_emit (ReadError (path_join fp f)) w) = (st', w')"
  | d where "endswith f ''.json''"
    "fs w (path_join fp f) = Some (File (Some (JObj d)))" "marked d"
    "collect_unpushed fp rest (u, ps, res\<lparr>skipped := skipped res + 1\<rparr>)
       (w\<lparr>objs := (objs w)(next_obj w := d), next_obj := next_obj w + 1\<rparr>) = (st', w')"
  | d e where "endswith f ''.json''"
    "fs w (path_join fp f) = Some (File (Some (JObj d)))" "\<not> marked d"
    "dict_key (dict_get d ''chunk_index'' (JStr f)) = Inl e"
    "collect_unpushed fp rest (u @ [next_obj w], ps, res\<lparr>failed := failed res + 1\<rparr>)
       (log_emit (ReadError (path_join fp f))
          (w\<lparr>objs := (objs w)(next_obj w := d), next_obj := next_obj w + 1\<rparr>)) = (st', w')"
  | d k where "endswith f ''.json''"
    "fs w (path_join fp f) = Some (File (Some (JObj d)))" "\<not> marked d"
    "dict_key (dict_get d ''chunk_index'' (JStr f)) = Inr k"
    "collect_unpushed fp rest (u @ [next_obj w], AList.update k (path_join fp f) ps, res)
       (w\<lparr>objs := (objs w)(next_obj w := d), next_obj := next_obj w + 1\<rparr>) = (st', w')"
proof (cases "endswith f ''.json''")
  case False
  with assms that(1) show ?thesis by simp
next
  case True
  show ?thesis
  proof (cases "json_load_file w (path_join fp f)")
    case (Inl e)
    then have "\<forall>d. fs w (path_join fp f) \<noteq> Some (File (Some (JObj d)))"
      by (auto simp: json_load_file_def)
    with Inl True assms that(2) show ?thesis by (simp add: Let_def)
  next
    case (Inr j)
    show ?thesis
    proof (cases "\<exists>d. j = JObj d")
      case False
      with Inr have "\<forall>d. fs w (path_join fp f) \<noteq> Some (File (Some (JObj d)))"
        by (auto simp: json_load_file_def)
      with False Inr True assms that(2) show ?thesis
        by (cases j) (simp_all add: Let_def)
    next
      case True
      then obtain d where j: "j = JObj d" by blast
      with Inr have isfile: "fs w (path_join fp f) = Some (File (Some (JObj d)))"
        by (simp add: json_load_file_cases)
      show ?thesis
      proof (cases "marked d")
        case True
        with j Inr \<open>endswith f ''.json''\<close> assms isfile that(3) show ?thesis
          by (simp add: Let_def marked_def)
      next
        case False
        show ?thesis
        proof (cases "dict_key (dict_get d ''chunk_index'' (JStr f))")
          case (Inl e)
          with False j Inr \<open>endswith f ''.json''\<close> assms isfile that(4) show ?thesis
            by (simp add: Let_def marked_def)
        next
          case (Inr k)
          with False j \<open>json_load_file w (path_join fp f) = Inr j\<close>
            \<open>endswith f ''.json''\<close> assms isfile that(5) show ?thesis
            by (simp add: Let_def marked_def)
        qed
      qed
    qed
  qed
qed

lemma collect_unpushed_new:
  "collect_unpushed fp names (u, ps, res) w = ((u', ps', res'), w') \<Longrightarrow>
     \<exists>new. u' = u @ new \<and>
       (\<forall>r\<in>set new. next_obj w \<le> r \<and> r < next_obj w' \<and> \<not> marked (objs w' r) \<and>
          (\<exists>f\<in>set names. endswith f ''.json'' \<and>
             fs w (path_join fp f) = Some (File (Some (JObj (objs w' r))))))"
proof (induction names arbitrary: u ps res w)
  case Nil
  then show ?case by simp
next
  case (Cons f rest)
  from Cons.prems show ?case
  proof (cases rule: collect_unpushed_Cons_cases)
    case skip
    from Cons.IH [OF skip(2)] show ?thesis by auto
  next
    case unreadable
    from Cons.IH [OF unreadable(3)] show ?thesis by (auto simp: log_emit_def)
  next
    case (pushed d)
    from Cons.IH [OF pushed(4)] show ?thesis by fastforce
  next
    case (unhashable d e)
    let ?w1 = "log_emit (ReadError (path_join fp f))
          (w\<lparr>objs := (objs w)(next_obj w := d), next_obj := next_obj w + 1\<rparr>)"
    from Cons.IH [OF unhashable(5)] obtain new1 where
      new1: "u' = (u @ [next_obj w]) @ new1"
        "\<forall>r\<in>set new1. next_obj ?w1 \<le> r \<and> r < next_obj w' \<and> \<not> marked (objs w' r) \<and>
          (\<exists>f\<in>set rest. endswith f ''.json'' \<and>
             fs ?w1 (path_join fp f) = Some (File (Some (JObj (objs w' r)))))" by blast
    from collect_unpushed_frame [OF unhashable(5)]
    have fr: "next_obj ?w1 \<le> next_obj w'" "objs w' (next_obj w) = d"
      by (auto simp: log_emit_def)
    show ?thesis
      by (rule exI [of _ "next_obj w # new1"])
         (use new1 fr unhashable(1-3) in \<open>auto simp: log_emit_def\<close>)
  next
    case (fresh d k)
    let ?w1 = "w\<lparr>objs := (objs w)(next_obj w := d), next_obj := next_obj w + 1\<rparr>"
    from Cons.IH [OF fresh(5)] obtain new1 where
      new1: "u' = (u @ [next_obj w]) @ new1"
        "\<forall>r\<in>set new1. next_obj ?w1 \<le> r \<and> r < next_obj w' \<and> \<not> marked (objs w' r) \<and>
          (\<exists>f\<in>set rest. endswith f ''.json'' \<and>
             fs ?w1 (path_join fp f) = Some (File (Some (JObj (objs w' r)))))" by blast
    from collect_unpushed_frame [OF fresh(5)]
    have fr: "next_obj ?w1 \<le> next_obj w'" "objs w' (next_obj w) = d"
      by auto
    show ?thesis
      by (rule exI [of _ "next_obj w # new1"])
         (use new1 fr fresh(1-3) in auto)
  qed
qed

lemma collect_unpushed_skipped:
  "collect_unpushed fp names (u, ps, res) w = ((u', ps', res'), w') \<Longrightarrow>
     skipped res' = skipped res
       + length (filter (\<lambda>f. endswith f ''.json'' \<and> marked_file w (path_join fp f)) names)"
proof (induction names arbitrary: u ps res w)
  case Nil
  then show ?case by simp
next
  case (Cons f rest)
  from Cons.prems show ?case
  proof (cases rule: collect_unpushed_Cons_cases)
    case skip
    from Cons.IH [OF skip(2)] skip(1) show ?thesis by simp
  next
    case unreadable
    have "\<not> marked_file w (path_join fp f)"
      using unreadable(2) by (auto simp: marked_file_def split: option.splits node.splits json.splits)
    with Cons.IH [OF unreadable(3)] show ?thesis
      by (simp add: log_emit_def)
  next
    case (pushed d)
    let ?w1 = "w\<lparr>objs := (objs w)(next_obj w := d), next_obj := next_obj w + 1\<rparr>"
    have "marked_file w (path_join fp f)" using pushed(2,3) by (simp add: marked_file_def)
    with Cons.IH [OF pushed(4)] pushed(1) show ?thesis
      by simp
  next
    case (unhashable d e)
    let ?w1 = "log_emit (ReadError (path_join fp f))
          (w\<lparr>objs := (objs w)(next_obj w := d), next_obj := next_obj w + 1\<rparr>)"
    have "\<not> marked_file w (path_join fp f)" using unhashable(2,3) by (simp add: marked_file_def)
    with Cons.IH [OF unhashable(5)] show ?thesis
      by (simp add: log_emit_def)
  next
    case (fresh d k)
    let ?w1 = "w\<lparr>objs := (objs w)(next_obj w := d), next_obj := next_obj w + 1\<rparr>"
    have "\<not> marked_file w (path_join fp f)" using fresh(2,3) by (simp add: marked_file_def)
    with Cons.IH [OF fresh(5)] show ?thesis
      by simp
  qed
qed

lemma hashable_index:
  assumes "ordinal_of (dict_get d ''chunk_index'' JNull) \<noteq> None"
  shows "\<exists>k. dict_key (dict_get d ''chunk_index'' dflt) = Inr k"
proof -
  from assms obtain v where v: "map_of d ''chunk_index'' = Some v"
    by (cases "map_of d ''chunk_index''") (auto simp: dict_get_def)
  with assms have "ordinal_of v \<noteq> None" by (simp add: dict_get_def)
  then show ?thesis using v by (cases v) (auto simp: dict_get_def)
qed

lemma collect_unpushed_failed:
  "collect_unpushed fp names (u, ps, res) w = ((u', ps', res'), w') \<Longrightarrow>
     \<forall>r\<in>set u'. next_obj w \<le> r \<longrightarrow> ordinal_of (dict_get (objs w' r) ''chunk_index'' JNull) \<noteq> None \<Longrightarrow>
     length u' + failed res'
       + length (filter (\<lambda>f. endswith f ''.json'' \<and> marked_file w (path_join fp f)) names)
     = length u + failed res + length (filter (\<lambda>f. endswith f ''.json'') names)"
proof (induction names arbitrary: u ps res w)
  case Nil
  then show ?case by simp
next
  case (Cons f rest)
  from Cons.prems(1) show ?case
  proof (cases rule: collect_unpushed_Cons_cases)
    case skip
    from Cons.IH [OF skip(2) Cons.prems(2)] skip(1) show ?thesis by simp
  next
    case unreadable
    have nm: "\<not> marked_file w (path_join fp f)"
      using unreadable(2) by (auto simp: marked_file_def split: option.splits node.splits json.splits)
    have "\<forall>r\<in>set u'. next_obj (log_emit (ReadError (path_join fp f)) w) \<le> r \<longrightarrow>
            ordinal_of (dict_get (objs w' r) ''chunk_index'' JNull) \<noteq> None"
      using Cons.prems(2) by (simp add: log_emit_def)
    from Cons.IH [OF unreadable(3) this] nm unreadable(1) show ?thesis
      by (simp add: log_emit_def)
  next
    case (pushed d)
    let ?w1 = "w\<lparr>objs := (objs w)(next_obj w := d), next_obj := next_obj w + 1\<rparr>"
    have m: "marked_file w (path_join fp f)" using pushed(2,3) by (simp add: marked_file_def)
    have "\<forall>r\<in>set u'. next_obj ?w1 \<le> r \<longrightarrow>
            ordinal_of (dict_get (objs w' r) ''chunk_index'' JNull) \<noteq> None"
      using Cons.prems(2) by simp
    from Cons.IH [OF pushed(4) this] m pushed(1) show ?thesis by simp
  next
    case (unhashable d e)
    let ?w1 = "log_emit (ReadError (path_join fp f))
          (w\<lparr>objs := (objs w)(next_obj w := d), next_obj := next_obj w + 1\<rparr>)"
    from collect_unpushed_new [OF unhashable(5)] have "next_obj w \<in> set u'" by auto
    with Cons.prems(2)
    have "ordinal_of (dict_get (objs w' (next_obj w)) ''chunk_index'' JNull) \<noteq> None" by simp
    moreover from collect_unpushed_frame [OF unhashable(5)] have "objs w' (next_obj w) = d"
      by (auto simp: log_emit_def)
    ultimately have "ordinal_of (dict_get d ''chunk_index'' JNull) \<noteq> None" by simp
    from hashable_index [OF this, of "JStr f"] unhashable(4) show ?thesis by simp
  next
    case (fresh d k)
    let ?w1 = "w\<lparr>objs := (objs w)(next_obj w := d), next_obj := next_obj w + 1\<rparr>"
    have nm: "\<not> marked_file w (path_join fp f)" using fresh(2,3) by (simp add: marked_file_def)
    have "\<forall>r\<in>set u'. next_obj ?w1 \<le> r \<longrightarrow>
            ordinal_of (dict_get (objs w' r) ''chunk_index'' JNull) \<noteq> None"
      using Cons.prems(2) by simp
    from Cons.IH [OF fresh(5) this] nm fresh(1) show ?thesis by simp
  qed
qed

lemma mark_pushed_Cons:
  assumes "mark_pushed g t fset ps (r # rs) w = (res, w')"
  shows "(\<exists>e. res = Inl e \<and> w' = w) \<or>
         (ordinal_of (dict_get (objs w r) ''chunk_index'' JNull) \<noteq> None \<and>
          (\<exists>wn. mark_pushed g t fset ps rs wn = (res, w')
             \<and> (\<exists>evs. trace wn = trace w @ evs \<and> hub_calls evs = [])
             \<and> (\<forall>r' x. dict_get (objs wn r') ''chunk_index'' x
                         = dict_get (objs w r') ''chunk_index'' x)))"
proof (cases "chunk_filename g (dict_get (objs w r) ''chunk_index'' JNull)")
  case (Inl e)
  with assms show ?thesis by (auto simp: Let_def)
next
  case (Inr nm)
  then have ord: "ordinal_of (dict_get (objs w r) ''chunk_index'' JNull) \<noteq> None"
    by (auto simp: chunk_filename_def format_02d_Inr split: sum.splits)
  have same: "mark_pushed g t fset ps rs w = (res, w') \<Longrightarrow> ?thesis"
    using ord by (intro disjI2 conjI exI [of _ w]) auto
  show ?thesis
  proof (cases "nm \<in> set fset")
    case True
    with Inr assms show ?thesis by (intro same) (simp add: Let_def)
  next
    case notfailed: False
    from hashable_index [OF ord, of JNull] obtain k
      where key: "dict_key (dict_get (objs w r) ''chunk_index'' JNull) = Inr k" by blast
    show ?thesis
    proof (cases "map_of ps k")
      case None
      with key notfailed Inr assms show ?thesis by (intro same) (simp add: Let_def)
    next
      case (Some chunk_path)
      show ?thesis
      proof (cases "chunk_path \<noteq> [] \<and> path_exists w chunk_path")
        case False
        with Some key notfailed Inr assms show ?thesis by (intro same) (auto simp: Let_def)
      next
        case True
        let ?marked = "dict_set (objs w r) ''pushed_to_hf'' (JStr t)"
        let ?w1 = "w\<lparr>objs := (objs w)(r := ?marked)\<rparr>"
        have idx: "\<forall>r' x. dict_get (objs ?w1 r') ''chunk_index'' x
                         = dict_get (objs w r') ''chunk_index'' x"
          by (simp add: dict_get_set_other)
        show ?thesis
        proof (cases "\<exists>old. fs w chunk_path = Some (File old)")
          case False
          with True Some key Inr notfailed assms
          have run: "mark_pushed g t fset ps rs (log_emit (MarkWarning chunk_path) ?w1) = (res, w')"
            by (auto simp: Let_def split: option.splits node.splits)
          show ?thesis
            by (intro disjI2 conjI ord exI [of _ "log_emit (MarkWarning chunk_path) ?w1"] run)
               (use idx in \<open>auto simp: log_emit_def\<close>)
        next
          case isfile: True
          let ?w2 = "?w1\<lparr>fs := (fs ?w1)(chunk_path \<mapsto> File (Some (JObj ?marked)))\<rparr>"
          from isfile True Some key Inr notfailed assms
          have run: "mark_pushed g t fset ps rs ?w2 = (res, w')"
            by (auto simp: Let_def)
          show ?thesis
            by (intro disjI2 conjI ord exI [of _ ?w2] run) (use idx in auto)
        qed
      qed
    qed
  qed
qed

lemma mark_pushed_frame:
  "mark_pushed g t fset ps rs w = (res, w') \<Longrightarrow>
     (\<exists>evs. trace w' = trace w @ evs \<and> hub_calls evs = [])
     \<and> (\<forall>r' x. dict_get (objs w' r') ''chunk_index'' x = dict_get (objs w r') ''chunk_index'' x)"
proof (induction rs arbitrary: w)
  case Nil
  then show ?case by simp
next
  case (Cons r rs)
  from mark_pushed_Cons [OF Cons.prems] show ?case
  proof
    assume "\<exists>e. res = Inl e \<and> w' = w"
    then show ?thesis by simp
  next
    assume "ordinal_of (dict_get (objs w r) ''chunk_index'' JNull) \<noteq> None \<and>
          (\<exists>wn. mark_pushed g t fset ps rs wn = (res, w')
             \<and> (\<exists>evs. trace wn = trace w @ evs \<and> hub_calls evs = [])
             \<and> (\<forall>r' x. dict_get (objs wn r') ''chunk_index'' x
                         = dict_get (objs w r') ''chunk_index'' x))"
    then obtain wn evs where wn: "mark_pushed g t fset ps rs wn = (res, w')"
      "trace wn = trace w @ evs" "hub_calls evs = []"
      "\<forall>r' x. dict_get (objs wn r') ''chunk_index'' x = dict_get (objs w r') ''chunk_index'' x"
      by blast
    from Cons.IH [OF wn(1)] obtain evs2 where
      "trace w' = trace wn @ evs2" "hub_calls evs2 = []"
      "\<forall>r' x. dict_get (objs w' r') ''chunk_index'' x = dict_get (objs wn r') ''chunk_index'' x"
      by blast
    with wn show ?thesis by (intro conjI exI [of _ "evs @ evs2"]) auto
  qed
qed

lemma mark_pushed_Inr:
  "mark_pushed g t fset ps rs w = (Inr x, w') \<Longrightarrow>
     \<forall>r\<in>set rs. ordinal_of (dict_get (objs w r) ''chunk_index'' JNull) \<noteq> None"
proof (induction rs arbitrary: w)
  case Nil
  then show ?case by simp
next
  case (Cons r rs)
  from mark_pushed_Cons [OF Cons.prems] obtain wn where
    ord: "ordinal_of (dict_get (objs w r) ''chunk_index'' JNull) \<noteq> None"
    and wn: "mark_pushed g t fset ps rs wn = (Inr x, w')"
      "\<forall>r' x. dict_get (objs wn r') ''chunk_index'' x = dict_get (objs w r') ''chunk_index'' x"
    by auto
  from Cons.IH [OF wn(1)] wn(2) ord show ?case by simp
qed

subsection \<open>One folder and the whole section\<close>

lemma push_folder_dir:
  assumes "fs w (path_join (APPROVED_CHUNKED_DIR cfg) folder) = Some (Dir names)"
    and "selected tf folder"
  shows "push_folder hf cfg tf repo_name utcnow folder res w =
     (case collect_unpushed (path_join (APPROVED_CHUNKED_DIR cfg) folder) (sort names)
             ([], [], res) w of
        ((u, ps, res1), w1) \<Rightarrow>
          if u = [] then (Inr res1, w1)
          else
            (case upload_chunks_batch hf folder u (Some repo_name) 50 w1 of
               (Inl e, w2) \<Rightarrow> (Inl e, w2)
             | (Inr result, w2) \<Rightarrow>
                 (case mark_pushed folder (utcnow folder @ ''Z'') (result_failed_chunks result)
                         ps u w2 of
                    (Inl e, w3) \<Rightarrow> (Inl e, w3)
                  | (Inr x, w3) \<Rightarrow> (Inr (record_result folder result res1), w3))))"
proof -
  from assms(2) have "\<not> (case tf of None \<Rightarrow> False | Some t \<Rightarrow> t \<noteq> [] \<and> folder \<noteq> t)"
    by (auto simp: selected_def split: option.splits)
  with assms(1) show ?thesis
    by (simp add: push_folder_def Let_def isdir_def listdir_def split: prod.splits sum.splits)
qed

lemma push_folder_passed_over:
  assumes "\<not> isdir w (path_join (APPROVED_CHUNKED_DIR cfg) folder) \<or> \<not> selected tf folder"
  shows "push_folder hf cfg tf repo_name utcnow folder res w = (Inr res, w)"
  using assms by (auto simp: push_folder_def Let_def selected_def split: option.splits)

lemma record_result_fields:
  "uploaded (record_result folder result res1) = uploaded res1 + result_uploaded_count result"
  "failed (record_result folder result res1) = failed res1 + result_failed_count result"
  "skipped (record_result folder result res1) = skipped res1"
  by (simp_all add: record_result_def Let_def)

lemma push_folder_cases [consumes 1, case_names passed_over nothing_to_push upload_raised pushed]:
  assumes "push_folder hf cfg tf repo_name utcnow folder res w = (out, w')"
  obtains
    "\<not> isdir w (path_join (APPROVED_CHUNKED_DIR cfg) folder) \<or> \<not> selected tf folder"
    "out = Inr res" "w' = w"
  | names ps res1 where
    "fs w (path_join (APPROVED_CHUNKED_DIR cfg) folder) = Some (Dir names)" "selected tf folder"
    "collect_unpushed (path_join (APPROVED_CHUNKED_DIR cfg) folder) (sort names) ([], [], res) w
       = (([], ps, res1), w')"
    "out = Inr res1"
  | names u ps res1 w1 e where
    "fs w (path_join (APPROVED_CHUNKED_DIR cfg) folder) = Some (Dir names)" "selected tf folder"
    "collect_unpushed (path_join (APPROVED_CHUNKED_DIR cfg) folder) (sort names) ([], [], res) w
       = ((u, ps, res1), w1)"
    "upload_chunks_batch hf folder u (Some repo_name) 50 w1 = (Inl e, w')" "out = Inl e"
  | names u ps res1 w1 result w2 mres where
    "fs w (path_join (APPROVED_CHUNKED_DIR cfg) folder) = Some (Dir names)" "selected tf folder"
    "collect_unpushed (path_join (APPROVED_CHUNKED_DIR cfg) folder) (sort names) ([], [], res) w
       = ((u, ps, res1), w1)"
    "upload_chunks_batch hf folder u (Some repo_name) 50 w1 = (Inr result, w2)"
    "mark_pushed folder (utcnow folder @ ''Z'') (result_failed_chunks result) ps u w2 = (mres, w')"
    "out = (case mres of Inl e \<Rightarrow> Inl e | Inr x \<Rightarrow> Inr (record_result folder result res1))"
proof -
  let ?fp = "path_join (APPROVED_CHUNKED_DIR cfg) folder"
  show ?thesis
  proof (cases "isdir w ?fp \<and> selected tf folder")
    case False
    then have no: "\<not> isdir w ?fp \<or> \<not> selected tf folder" by simp
    from push_folder_passed_over [OF no, of hf repo_name utcnow res] assms
    have "out = Inr res" "w' = w" by simp_all
    with no show ?thesis by (rule that(1))
  next
    case True
    then obtain names where names: "fs w ?fp = Some (Dir names)" and sel: "selected tf folder"
      by (auto simp: isdir_def split: option.splits node.splits)
    note unfolded = push_folder_dir [OF names sel, of hf repo_name utcnow res]
    obtain u ps res1 w1 where
      col: "collect_unpushed ?fp (sort names) ([], [], res) w = ((u, ps, res1), w1)"
      by (cases "collect_unpushed ?fp (sort names) ([], [], res) w") auto
    show ?thesis
    proof (cases "u = []")
      case True
      with assms unfolded col have "out = Inr res1" "w1 = w'" by simp_all
      with names sel col True show ?thesis by (intro that(2)) simp_all
    next
      case False
      obtain ur w2 where up: "upload_chunks_batch hf folder u (Some repo_name) 50 w1 = (ur, w2)"
        by (cases "upload_chunks_batch hf folder u (Some repo_name) 50 w1")
      show ?thesis
      proof (cases ur)
        case (Inl e)
        with assms unfolded col up False have "out = Inl e" "w2 = w'" by simp_all
        with names sel col up Inl show ?thesis by (intro that(3)) simp_all
      next
        case (Inr result)
        obtain mres w3 where
          mk: "mark_pushed folder (utcnow folder @ ''Z'') (result_failed_chunks result) ps u w2
                 = (mres, w3)"
          by (cases "mark_pushed folder (utcnow folder @ ''Z'') (result_failed_chunks result) ps u w2")
        from assms unfolded col up False Inr mk
        have "w3 = w'"
          "out = (case mres of Inl e \<Rightarrow> Inl e | Inr x \<Rightarrow> Inr (record_result folder result res1))"
          by (cases mres; simp)+
        with names sel col up Inr mk show ?thesis by (intro that(4)) simp_all
      qed
    qed
  qed
qed

lemma from_unmarked_file_carries: "from_unmarked_file w fp op \<Longrightarrow> carries_unmarked op"
  by (auto simp: from_unmarked_file_def carries_unmarked_def)

lemma length_filter_sort: "length (filter P (sort xs)) = length (filter P xs)"
  by (simp add: filter_sort)

lemma collected_ops:
  assumes col: "collect_unpushed fp names ([], [], res) w = ((u, ps, res1), w1)"
    and up: "upload_chunks_batch hf folder u repo_arg bs w1 = (ur, w2)"
  shows "\<exists>evs. trace w2 = trace w @ evs \<and>
           (\<forall>(c, out)\<in>set (hub_calls evs). \<forall>op\<in>set (operations c). from_unmarked_file w fp op)"
proof -
  from collect_unpushed_frame [OF col] obtain evs1 where
    evs1: "trace w1 = trace w @ evs1" "hub_calls evs1 = []" by blast
  from collect_unpushed_new [OF col] have
    new: "\<forall>r\<in>set u. \<not> marked (objs w1 r) \<and>
          (\<exists>f\<in>set names. endswith f ''.json'' \<and>
             fs w (path_join fp f) = Some (File (Some (JObj (objs w1 r)))))" by auto
  from upload_chunks_batch_ops [OF up] obtain evs2 where
    evs2: "trace w2 = trace w1 @ evs2"
      "\<forall>(c, out)\<in>set (hub_calls evs2). \<forall>op\<in>set (operations c).
               \<exists>r\<in>set u. op_of_chunk folder (objs w1 r) op" by blast
  have "\<forall>(c, out)\<in>set (hub_calls evs2). \<forall>op\<in>set (operations c). from_unmarked_file w fp op"
  proof (clarify)
    fix c out op assume "(c, out) \<in> set (hub_calls evs2)" "op \<in> set (operations c)"
    with evs2(2) obtain r where r: "r \<in> set u" "op_of_chunk folder (objs w1 r) op" by blast
    from r(2) have "path_or_fileobj op = JsonBytes (objs w1 r)" by (simp add: op_of_chunk_def)
    with new r(1) show "from_unmarked_file w fp op"
      unfolding from_unmarked_file_def by blast
  qed
  with evs1 evs2(1) show ?thesis by (intro exI [of _ "evs1 @ evs2"]) simp
qed

lemma push_folder_uploads:
  assumes "push_folder hf cfg tf repo_name utcnow folder res w = (out, w')"
  shows "\<exists>evs. trace w' = trace w @ evs \<and>
           (\<forall>(c, out)\<in>set (hub_calls evs). \<forall>op\<in>set (operations c).
               from_unmarked_file w (path_join (APPROVED_CHUNKED_DIR cfg) folder) op)"
  using assms
proof (cases rule: push_folder_cases)
  case passed_over
  then show ?thesis by (intro exI [of _ "[]"]) simp
next
  case (nothing_to_push names ps res1)
  from collect_unpushed_frame [OF nothing_to_push(3)] obtain evs where
    "trace w' = trace w @ evs" "hub_calls evs = []" by blast
  then show ?thesis by (intro exI [of _ evs]) simp
next
  case (upload_raised names u ps res1 w1 e)
  from collected_ops [OF upload_raised(3,4)] show ?thesis .
next
  case (pushed names u ps res1 w1 result w2 mres)
  from collected_ops [OF pushed(3,4)] obtain evs1 where
    evs1: "trace w2 = trace w @ evs1"
      "\<forall>(c, out)\<in>set (hub_calls evs1). \<forall>op\<in>set (operations c).
          from_unmarked_file w (path_join (APPROVED_CHUNKED_DIR cfg) folder) op" by blast
  from mark_pushed_frame [OF pushed(5)] obtain evs2 where
    "trace w' = trace w2 @ evs2" "hub_calls evs2 = []" by blast
  with evs1 show ?thesis by (intro exI [of _ "evs1 @ evs2"]) simp
qed

lemma result_counts:
  assumes "upload_chunks_batch hf folder u repo_arg bs w1 = (Inr result, w2)"
  shows "result_uploaded_count result + result_failed_count result \<le> length u"
proof (cases result)
  case (Failure m)
  then show ?thesis by (simp add: result_uploaded_count_def result_failed_count_def)
next
  case (Report rep)
  with upload_chunks_batch_count(1) [OF assms [unfolded Report]] show ?thesis
    by (simp add: result_uploaded_count_def result_failed_count_def)
qed

lemma push_folder_counts:
  assumes run: "push_folder hf cfg tf repo_name utcnow folder res w = (Inr res', w')"
    and names: "fs w (path_join (APPROVED_CHUNKED_DIR cfg) folder) = Some (Dir names)"
    and sel: "selected tf folder"
  shows "skipped res' = skipped res
           + length (filter (\<lambda>f. endswith f ''.json''
                \<and> marked_file w (path_join (path_join (APPROVED_CHUNKED_DIR cfg) folder) f)) names)"
    and "uploaded res' + failed res'
           + length (filter (\<lambda>f. endswith f ''.json''
                \<and> marked_file w (path_join (path_join (APPROVED_CHUNKED_DIR cfg) folder) f)) names)
         \<le> uploaded res + failed res + length (filter (\<lambda>f. endswith f ''.json'') names)"
proof -
  let ?fp = "path_join (APPROVED_CHUNKED_DIR cfg) folder"
  let ?M = "length (filter (\<lambda>f. endswith f ''.json'' \<and> marked_file w (path_join ?fp f)) names)"
  let ?J = "length (filter (\<lambda>f. endswith f ''.json'') names)"
  have "skipped res' = skipped res + ?M
        \<and> uploaded res' + failed res' + ?M \<le> uploaded res + failed res + ?J"
    using run
  proof (cases rule: push_folder_cases)
    case passed_over
    with names sel show ?thesis by (simp add: isdir_def)
  next
    case (nothing_to_push names' ps res1)
    with names have col: "collect_unpushed ?fp (sort names) ([], [], res) w = (([], ps, res1), w')"
      and res': "res' = res1" by simp_all
    from collect_unpushed_skipped [OF col] collect_unpushed_failed [OF col]
      collect_unpushed_frame [OF col]
    show ?thesis by (simp add: res' length_filter_sort)
  next
    case (upload_raised names' u ps res1 w1 e)
    then show ?thesis by simp
  next
    case (pushed names' u ps res1 w1 result w2 mres)
    with names have col: "collect_unpushed ?fp (sort names) ([], [], res) w = ((u, ps, res1), w1)"
      by simp
    from pushed(6) obtain x where mres: "mres = Inr x"
      and res': "res' = record_result folder result res1"
      by (cases mres) simp_all
    from mark_pushed_Inr [OF pushed(5) [unfolded mres]]
    have "\<forall>r\<in>set u. ordinal_of (dict_get (objs w2 r) ''chunk_index'' JNull) \<noteq> None" .
    moreover have "objs w2 = objs w1" using upload_chunks_batch_frame [OF pushed(4)] by simp
    ultimately have good: "\<forall>r\<in>set u. next_obj w \<le> r \<longrightarrow>
        ordinal_of (dict_get (objs w1 r) ''chunk_index'' JNull) \<noteq> None" by simp
    from collect_unpushed_failed [OF col good]
    have cnt: "length u + failed res1 + ?M = failed res + ?J" by (simp add: length_filter_sort)
    from collect_unpushed_skipped [OF col] have sk: "skipped res1 = skipped res + ?M"
      by (simp add: length_filter_sort)
    from collect_unpushed_frame [OF col] have upl: "uploaded res1 = uploaded res" by simp
    from result_counts [OF pushed(4)] cnt sk upl show ?thesis
      by (simp add: res' record_result_fields)
  qed
  then show "skipped res' = skipped res + ?M"
    and "uploaded res' + failed res' + ?M \<le> uploaded res + failed res + ?J" by simp_all
qed

lemma folders_loop_uploads:
  "folders_loop hf cfg tf repo_name utcnow folders res w = (out, w') \<Longrightarrow>
     \<exists>evs. trace w' = trace w @ evs \<and>
           (\<forall>(c, out)\<in>set (hub_calls evs). \<forall>op\<in>set (operations c). carries_unmarked op)"
proof (induction folders arbitrary: res w)
  case Nil
  then show ?case by simp
next
  case (Cons folder rest)
  obtain r1 w1 where pf: "push_folder hf cfg tf repo_name utcnow folder res w = (r1, w1)"
    by (cases "push_folder hf cfg tf repo_name utcnow folder res w")
  from push_folder_uploads [OF pf] obtain evs1 where
    tr1: "trace w1 = trace w @ evs1" and
    from1: "\<forall>(c, out)\<in>set (hub_calls evs1). \<forall>op\<in>set (operations c).
              from_unmarked_file w (path_join (APPROVED_CHUNKED_DIR cfg) folder) op"
    by blast
  from from1 have "\<forall>(c, out)\<in>set (hub_calls evs1). \<forall>op\<in>set (operations c). carries_unmarked op"
    by (fastforce dest: from_unmarked_file_carries)
  with tr1 have evs1: "trace w1 = trace w @ evs1"
      "\<forall>(c, out)\<in>set (hub_calls evs1). \<forall>op\<in>set (operations c). carries_unmarked op"
    by simp_all
  show ?case
  proof (cases r1)
    case (Inl e)
    with Cons.prems pf evs1 show ?thesis by auto
  next
    case (Inr res1)
    with Cons.prems pf have "folders_loop hf cfg tf repo_name utcnow rest res1 w1 = (out, w')"
      by simp
    from Cons.IH [OF this] obtain evs2 where
      "trace w' = trace w1 @ evs2"
      "\<forall>(c, out)\<in>set (hub_calls evs2). \<forall>op\<in>set (operations c). carries_unmarked op" by blast
    with evs1 show ?thesis by (intro exI [of _ "evs1 @ evs2"]) auto
  qed
qed

lemma push_chunked_uploads:
  assumes "push_chunked hf cfg push_type tf data_repo utcnow res w = (out, w')"
  shows "\<exists>evs. trace w' = trace w @ evs \<and>
           (\<forall>(c, out)\<in>set (hub_calls evs). \<forall>op\<in>set (operations c). carries_unmarked op)"
proof (cases "w' = w")
  case True
  then show ?thesis by (intro exI [of _ "[]"]) simp
next
  case False
  with assms obtain names repo_name where
    "folders_loop hf cfg tf repo_name utcnow (sort names) res w = (out, w')"
    by (auto simp: push_chunked_def Let_def split: if_splits sum.splits)
  from folders_loop_uploads [OF this] show ?thesis .
qed

subsection \<open>Evaluation at concrete inputs\<close>

lemmas run_simps =
  upload_chunks_batch_def is_configured_def repo_or_def py_range.simps upload_batch_def
  chunk_filename_def dict_get_def int_02d_def dec.simps digit_char_def MAX_RETRIES_def
  create_commit_def status_code_of_def time_sleep_def log_emit_def upt_rec Let_def
  batch_commit_def ex_service_def ex_heap_def rate_limited_def unavailable_def unreachable_def

lemmas push_simps =
  push_chunked_def push_folder_def path_exists_def listdir_def isdir_def json_load_file_def
  path_join_def endswith_def ex_store_def ex_config_def no_results_def ex_clock_def
  result_uploaded_count_def result_failed_count_def result_failed_chunks_def
  dict_set_def record_result_def

section \<open>The claims\<close>

text \<open>
  Claim C1 says that the uploaded count plus the number of failed chunks equals the
  number of input chunks. The code breaks it: for one chunk and a Hub that answers 429
  to each of the three attempts, the last attempt takes the retry branch, the loop runs
  out, and the report counts the chunk neither as uploaded nor as failed.
\<close>

theorem rate_limited_batch_is_dropped:
  "fst (upload_chunks_batch (ex_service rate_limited) ''doc'' [0] None 50
          (ex_heap [[(''chunk_index'', JInt 1)]]))
     = Inr (Report \<lparr>success = True,
                     message = ''Uploaded 0 chunks (0 failed) to org/chunked'',
                     repo = ''org/chunked'', uploaded_count = 0, failed_count = 0,
                     failed_chunks = []\<rparr>)"
  by (simp add: run_simps)

text \<open>
  Claim C2 says that a batch whose commit fails on every attempt has all its chunks in
  \<^verbatim>\<open>failed_chunks\<close>. The code breaks it: for a batch of two chunks whose three commit
  attempts are all answered 429, the function sleeps 2, 4 and 8 seconds and reports no
  failed chunk (and none uploaded).
\<close>

theorem rate_limited_batch_not_recorded_failed:
  "map snd (hub_calls (trace (snd (upload_chunks_batch (ex_service rate_limited) ''doc'' [0, 1]
      None 50 (ex_heap [[(''chunk_index'', JInt 1)], [(''chunk_index'', JInt 2)]])))))
     = [rate_limited 0, rate_limited 1, rate_limited 2]
   \<and> sleeps_of (trace (snd (upload_chunks_batch (ex_service rate_limited) ''doc'' [0, 1]
      None 50 (ex_heap [[(''chunk_index'', JInt 1)], [(''chunk_index'', JInt 2)]])))) = [2, 4, 8]
   \<and> (\<exists>rep. fst (upload_chunks_batch (ex_service rate_limited) ''doc'' [0, 1]
      None 50 (ex_heap [[(''chunk_index'', JInt 1)], [(''chunk_index'', JInt 2)]])) = Inr (Report rep)
         \<and> uploaded_count rep = 0 \<and> failed_chunks rep = [])"
  by (simp add: run_simps)

text \<open>
  Claim C3 says that no error raised while processing a batch aborts the call. The code
  breaks it: for a chunk without \<^verbatim>\<open>chunk_index\<close> whose commit fails on all three attempts,
  recording the failure formats the default \<^verbatim>\<open>"?"\<close> with \<^verbatim>\<open>:02d\<close>, the \<^verbatim>\<open>ValueError\<close> leaves
  the function, and the second batch is never attempted (three Hub calls in all). With
  a Hub that accepts every commit the same input is uploaded in full.
\<close>

theorem failure_recording_aborts_the_call:
  "fst (upload_chunks_batch (ex_service unreachable) ''doc'' [0, 1] None 1
          (ex_heap [[(''text'', JStr ''a'')], [(''chunk_index'', JInt 2)]])) = Inl ValueError
   \<and> length (hub_calls (trace (snd (upload_chunks_batch (ex_service unreachable) ''doc'' [0, 1] None 1
          (ex_heap [[(''text'', JStr ''a'')], [(''chunk_index'', JInt 2)]]))))) = 3
   \<and> (\<exists>rep. fst (upload_chunks_batch (ex_service (\<lambda>n. Committed)) ''doc'' [0, 1] None 1
          (ex_heap [[(''text'', JStr ''a'')], [(''chunk_index'', JInt 2)]])) = Inr (Report rep)
         \<and> uploaded_count rep = 2)"
  by (simp add: run_simps)

text \<open>
  Claim C4 says that status 429 does not change how the outcome of a batch is recorded.
  The code breaks it: the same chunk, failing three times, is recorded as failed when
  the Hub answers 503 and is not recorded at all when it answers 429.
\<close>

theorem rate_limit_changes_the_record:
  "(\<exists>rep. fst (upload_chunks_batch (ex_service unavailable) ''doc'' [0] None 50
              (ex_heap [[(''chunk_index'', JInt 1)]])) = Inr (Report rep)
        \<and> failed_chunks rep = [''doc/chunk_01.json''] \<and> \<not> success rep)
   \<and> (\<exists>rep. fst (upload_chunks_batch (ex_service rate_limited) ''doc'' [0] None 50
              (ex_heap [[(''chunk_index'', JInt 1)]])) = Inr (Report rep)
        \<and> failed_chunks rep = [] \<and> success rep)"
  by (simp add: run_simps)

text \<open>
  Claim C5: whatever the Hub does, the attempts and waits of one batch are an initial part
  of attempt, wait 2, attempt, wait 4, attempt, wait 8. So a retry is preceded by a wait
  of \<open>2 ^ attempt\<close> seconds, the waits of a batch increase strictly, and a batch is
  committed at most \<^verbatim>\<open>MAX_RETRIES\<close> (three) times.
\<close>

theorem backoff_schedule_per_batch:
  "\<exists>evs. trace (snd (upload_batch hub folder_name target_repo chunks batch_size batch_start acc w))
            = trace w @ evs
     \<and> prefix (steps_of evs) [Attempt, Wait 2, Attempt, Wait 4, Attempt, Wait 8]
     \<and> length (hub_calls evs) \<le> MAX_RETRIES
     \<and> sorted_wrt (<) (sleeps_of evs)
     \<and> sleeps_of evs = map (\<lambda>attempt. 2 ^ attempt) [1..<Suc (length (sleeps_of evs))]"
proof (cases "build_operations folder_name (map (objs w) (take batch_size (drop batch_start chunks)))")
  case (Inl e)
  then have "snd (upload_batch hub folder_name target_repo chunks batch_size batch_start acc w) = w"
    by (simp add: upload_batch_def)
  then show ?thesis by (intro exI [of _ "[]"]) simp
next
  case (Inr ops)
  obtain res w' where run:
    "retry_loop hub folder_name target_repo batch_start (take batch_size (drop batch_start chunks))
       ops [1..<MAX_RETRIES + 1] acc w = (res, w')"
    by (cases "retry_loop hub folder_name target_repo batch_start
                 (take batch_size (drop batch_start chunks)) ops [1..<MAX_RETRIES + 1] acc w")
  with Inr have w': "snd (upload_batch hub folder_name target_repo chunks batch_size batch_start acc w) = w'"
    by (simp add: upload_batch_def)
  from retry_loop_schedule [OF run] obtain evs where
    evs: "trace w' = trace w @ evs" "prefix (steps_of evs) (backoff_schedule [1..<MAX_RETRIES + 1])"
      "length (hub_calls evs) \<le> length [1..<MAX_RETRIES + 1]"
      "prefix (sleeps_of evs) (map (\<lambda>attempt. 2 ^ attempt) [1..<MAX_RETRIES + 1])" by blast
  have attempts: "[1..<MAX_RETRIES + 1] = [1, 2, 3]"
    by (simp add: MAX_RETRIES_def upt_rec)
  have sched: "backoff_schedule [1, 2, 3] = [Attempt, Wait 2, Attempt, Wait 4, Attempt, Wait 8]"
    by (simp add: backoff_schedule_def)
  have "prefix (sleeps_of evs) [2, 4, 8]"
    using evs(4) unfolding attempts by simp
  from prefix_248 [OF this] evs(1-3) w' show ?thesis
    unfolding attempts sched by (intro exI [of _ evs]) (simp add: MAX_RETRIES_def)
qed



text \<open>
  Claim C10: whenever the call returns its report, \<^verbatim>\<open>success\<close> is true exactly when
  \<^verbatim>\<open>failed_chunks\<close> is empty; and there is a call that reports success although it
  uploaded fewer chunks than it was given.
\<close>

theorem success_iff_no_failed_chunks:
  "(fst (upload_chunks_batch self folder_name chunks repo_arg batch_size w) = Inr (Report rep)
      \<longrightarrow> (success rep \<longleftrightarrow> failed_chunks rep = []))
   \<and> (\<exists>rep'. fst (upload_chunks_batch (ex_service rate_limited) ''doc'' [0] None 50
                    (ex_heap [[(''chunk_index'', JInt 1)]])) = Inr (Report rep')
          \<and> success rep' \<and> uploaded_count rep' < length [0::nat])"
proof (intro conjI impI)
  assume "fst (upload_chunks_batch self folder_name chunks repo_arg batch_size w) = Inr (Report rep)"
  then have "upload_chunks_batch self folder_name chunks repo_arg batch_size w
               = (Inr (Report rep), snd (upload_chunks_batch self folder_name chunks repo_arg batch_size w))"
    by (simp add: prod_eq_iff)
  from upload_chunks_batch_count(3) [OF this] show "success rep \<longleftrightarrow> failed_chunks rep = []" .
next
  show "\<exists>rep'. fst (upload_chunks_batch (ex_service rate_limited) ''doc'' [0] None 50
                    (ex_heap [[(''chunk_index'', JInt 1)]])) = Inr (Report rep')
          \<and> success rep' \<and> uploaded_count rep' < length [0::nat]"
    by (simp add: run_simps)
qed

theorem success_iff_no_failed_chunks_witness:
  "fst (upload_chunks_batch (ex_service unavailable) ''doc'' [0] None 50
          (ex_heap [[(''chunk_index'', JInt 1)]]))
     = Inr (Report \<lparr>success = False,
                     message = ''Uploaded 0 chunks (1 failed) to org/chunked'',
                     repo = ''org/chunked'', uploaded_count = 0, failed_count = 1,
                     failed_chunks = [''doc/chunk_01.json'']\<rparr>)
   \<and> (success \<lparr>success = False,
                message = ''Uploaded 0 chunks (1 failed) to org/chunked'',
                repo = ''org/chunked'', uploaded_count = 0, failed_count = 1,
                failed_chunks = [''doc/chunk_01.json'']\<rparr>
        \<longleftrightarrow> failed_chunks \<lparr>success = False,
                message = ''Uploaded 0 chunks (1 failed) to org/chunked'',
                repo = ''org/chunked'', uploaded_count = 0, failed_count = 1,
                failed_chunks = [''doc/chunk_01.json'']\<rparr> = [])"
proof -
  have e: "fst (upload_chunks_batch (ex_service unavailable) ''doc'' [0] None 50
          (ex_heap [[(''chunk_index'', JInt 1)]]))
     = Inr (Report \<lparr>success = False,
                     message = ''Uploaded 0 chunks (1 failed) to org/chunked'',
                     repo = ''org/chunked'', uploaded_count = 0, failed_count = 1,
                     failed_chunks = [''doc/chunk_01.json'']\<rparr>)"
    by (simp add: run_simps)
  from success_iff_no_failed_chunks [THEN conjunct1, THEN mp, OF e] e show ?thesis by blast
qed






text \<open>
  Claim C7: a chunk file whose record carries a (truthy) \<^verbatim>\<open>pushed_to_hf\<close> is left out before
  batching. Every operation of every commit made by the chunk section of the route carries
  an unmarked chunk. For one folder that is processed and answered without an exception,
  the skipped count grows by exactly the number of marked \<^verbatim>\<open>.json\<close> files, the uploaded and
  failed counts together grow by at most the number of the other \<^verbatim>\<open>.json\<close> files, and what
  is committed is the content of unmarked files of the folder. So when the section runs
  again, no commit carries a chunk that is marked on disk after the first run.
\<close>

theorem marked_chunks_are_never_uploaded:
  "(\<exists>evs. trace (snd (push_chunked hf cfg push_type tf data_repo utcnow res w)) = trace w @ evs
        \<and> (\<forall>(c, out)\<in>set (hub_calls evs). \<forall>op\<in>set (operations c). carries_unmarked op))
   \<and> (fs w (path_join (APPROVED_CHUNKED_DIR cfg) folder) = Some (Dir names)
        \<and> selected tf folder
        \<and> fst (push_folder hf cfg tf repo_name utcnow folder res w) = Inr res' \<longrightarrow>
          skipped res' = skipped res
            + length (filter (\<lambda>f. endswith f ''.json''
                 \<and> marked_file w (path_join (path_join (APPROVED_CHUNKED_DIR cfg) folder) f)) names)
        \<and> uploaded res' + failed res'
            + length (filter (\<lambda>f. endswith f ''.json''
                 \<and> marked_file w (path_join (path_join (APPROVED_CHUNKED_DIR cfg) folder) f)) names)
          \<le> uploaded res + failed res + length (filter (\<lambda>f. endswith f ''.json'') names)
        \<and> (\<exists>evs. trace (snd (push_folder hf cfg tf repo_name utcnow folder res w)) = trace w @ evs
             \<and> (\<forall>(c, out)\<in>set (hub_calls evs). \<forall>op\<in>set (operations c).
                   from_unmarked_file w (path_join (APPROVED_CHUNKED_DIR cfg) folder) op)))
   \<and> (\<exists>evs. trace (snd (push_chunked hf cfg push_type tf data_repo utcnow res2
                          (snd (push_chunked hf cfg push_type tf data_repo utcnow res w))))
              = trace (snd (push_chunked hf cfg push_type tf data_repo utcnow res w)) @ evs
        \<and> (\<forall>(c, out)\<in>set (hub_calls evs). \<forall>op\<in>set (operations c). \<forall>p d.
              fs (snd (push_chunked hf cfg push_type tf data_repo utcnow res w)) p
                = Some (File (Some (JObj d))) \<and> marked d
              \<longrightarrow> path_or_fileobj op \<noteq> JsonBytes d))"
proof (intro conjI impI)
  obtain out w' where run: "push_chunked hf cfg push_type tf data_repo utcnow res w = (out, w')"
    by (cases "push_chunked hf cfg push_type tf data_repo utcnow res w")
  from push_chunked_uploads [OF run] run
  show "\<exists>evs. trace (snd (push_chunked hf cfg push_type tf data_repo utcnow res w)) = trace w @ evs
        \<and> (\<forall>(c, out)\<in>set (hub_calls evs). \<forall>op\<in>set (operations c). carries_unmarked op)"
    by simp
  obtain out2 w2 where run2: "push_chunked hf cfg push_type tf data_repo utcnow res2 w' = (out2, w2)"
    by (cases "push_chunked hf cfg push_type tf data_repo utcnow res2 w'")
  from push_chunked_uploads [OF run2] obtain evs where
    evs: "trace w2 = trace w' @ evs"
      "\<forall>(c, out)\<in>set (hub_calls evs). \<forall>op\<in>set (operations c). carries_unmarked op" by blast
  have "\<forall>(c, out)\<in>set (hub_calls evs). \<forall>op\<in>set (operations c). \<forall>p d.
              fs w' p = Some (File (Some (JObj d))) \<and> marked d
              \<longrightarrow> path_or_fileobj op \<noteq> JsonBytes d"
    using evs(2) by (fastforce simp: carries_unmarked_def)
  with evs(1) run run2
  show "\<exists>evs. trace (snd (push_chunked hf cfg push_type tf data_repo utcnow res2
                          (snd (push_chunked hf cfg push_type tf data_repo utcnow res w))))
              = trace (snd (push_chunked hf cfg push_type tf data_repo utcnow res w)) @ evs
        \<and> (\<forall>(c, out)\<in>set (hub_calls evs). \<forall>op\<in>set (operations c). \<forall>p d.
              fs (snd (push_chunked hf cfg push_type tf data_repo utcnow res w)) p
                = Some (File (Some (JObj d))) \<and> marked d
              \<longrightarrow> path_or_fileobj op \<noteq> JsonBytes d)"
    by (intro exI [of _ evs]) simp
next
  assume h: "fs w (path_join (APPROVED_CHUNKED_DIR cfg) folder) = Some (Dir names)
        \<and> selected tf folder
        \<and> fst (push_folder hf cfg tf repo_name utcnow folder res w) = Inr res'"
  then have run: "push_folder hf cfg tf repo_name utcnow folder res w
                    = (Inr res', snd (push_folder hf cfg tf repo_name utcnow folder res w))"
    by (simp add: prod_eq_iff)
  from h have names: "fs w (path_join (APPROVED_CHUNKED_DIR cfg) folder) = Some (Dir names)"
    and sel: "selected tf folder" by simp_all
  from push_folder_counts(1) [OF run names sel]
  show "skipped res' = skipped res
            + length (filter (\<lambda>f. endswith f ''.json''
                 \<and> marked_file w (path_join (path_join (APPROVED_CHUNKED_DIR cfg) folder) f)) names)" .
  from push_folder_counts(2) [OF run names sel]
  show "uploaded res' + failed res'
            + length (filter (\<lambda>f. endswith f ''.json''
                 \<and> marked_file w (path_join (path_join (APPROVED_CHUNKED_DIR cfg) folder) f)) names)
          \<le> uploaded res + failed res + length (filter (\<lambda>f. endswith f ''.json'') names)" .
  from push_folder_uploads [OF run]
  show "\<exists>evs. trace (snd (push_folder hf cfg tf repo_name utcnow folder res w)) = trace w @ evs
             \<and> (\<forall>(c, out)\<in>set (hub_calls evs). \<forall>op\<in>set (operations c).
                   from_unmarked_file w (path_join (APPROVED_CHUNKED_DIR cfg) folder) op)" .
qed

text \<open>
  The example store: the first run uploads the unmarked chunk and skips the marked one;
  the second run skips both and makes no Hub call.
\<close>

theorem marked_chunks_are_never_uploaded_witness:
  "fst (push_folder (ex_service (\<lambda>n. Committed)) ex_config None ''org/chunked'' ex_clock ''doc''
          no_results ex_store)
     = Inr \<lparr>uploaded = 1, failed = 0, skipped = 1, files = [''doc (1 chunks)''],
            all_failed_chunks = []\<rparr>
   \<and> skipped \<lparr>uploaded = 1, failed = 0, skipped = 1, files = [''doc (1 chunks)''],
              all_failed_chunks = []\<rparr>
       = skipped no_results
         + length (filter (\<lambda>f. endswith f ''.json''
              \<and> marked_file ex_store (path_join (path_join (APPROVED_CHUNKED_DIR ex_config) ''doc'') f))
              [''chunk_02.json'', ''chunk_01.json'', ''notes.txt''])
   \<and> length (filter (\<lambda>f. endswith f ''.json''
              \<and> marked_file ex_store (path_join (path_join (APPROVED_CHUNKED_DIR ex_config) ''doc'') f))
              [''chunk_02.json'', ''chunk_01.json'', ''notes.txt'']) = 1
   \<and> map (\<lambda>(c, out). map path_in_repo (operations c))
        (hub_calls (trace (snd (push_chunked (ex_service (\<lambda>n. Committed)) ex_config ''chunked''
                                  None None ex_clock no_results ex_store))))
       = [[''doc/chunk_02.json'']]
   \<and> fst (push_chunked (ex_service (\<lambda>n. Committed)) ex_config ''chunked'' None None ex_clock
            no_results
            (snd (push_chunked (ex_service (\<lambda>n. Committed)) ex_config ''chunked'' None None
                    ex_clock no_results ex_store)))
       = Inr \<lparr>uploaded = 0, failed = 0, skipped = 2, files = [], all_failed_chunks = []\<rparr>
   \<and> trace (snd (push_chunked (ex_service (\<lambda>n. Committed)) ex_config ''chunked'' None None ex_clock
            no_results
            (snd (push_chunked (ex_service (\<lambda>n. Committed)) ex_config ''chunked'' None None
                    ex_clock no_results ex_store))))
       = trace (snd (push_chunked (ex_service (\<lambda>n. Committed)) ex_config ''chunked'' None None
                    ex_clock no_results ex_store))"
proof -
  let ?S = "ex_service (\<lambda>n. Committed)"
  let ?R1 = "\<lparr>uploaded = 1, failed = 0, skipped = 1, files = [''doc (1 chunks)''],
            all_failed_chunks = []\<rparr>"
  have h1: "fs ex_store (path_join (APPROVED_CHUNKED_DIR ex_config) ''doc'')
              = Some (Dir [''chunk_02.json'', ''chunk_01.json'', ''notes.txt''])"
    by (simp add: ex_store_def ex_config_def path_join_def)
  have h2: "selected None ''doc''" by (simp add: selected_def)
  have h3: "fst (push_folder ?S ex_config None ''org/chunked'' ex_clock ''doc'' no_results ex_store)
              = Inr ?R1"
    by (simp add: push_simps run_simps)
  from marked_chunks_are_never_uploaded
         [of ?S ex_config _ None _ ex_clock no_results ex_store "''doc''"
             "[''chunk_02.json'', ''chunk_01.json'', ''notes.txt'']" "''org/chunked''" ?R1]
       h1 h2 h3
  have c: "skipped ?R1 = skipped no_results
         + length (filter (\<lambda>f. endswith f ''.json''
              \<and> marked_file ex_store (path_join (path_join (APPROVED_CHUNKED_DIR ex_config) ''doc'') f))
              [''chunk_02.json'', ''chunk_01.json'', ''notes.txt''])"
    by blast
  have m: "length (filter (\<lambda>f. endswith f ''.json''
              \<and> marked_file ex_store (path_join (path_join (APPROVED_CHUNKED_DIR ex_config) ''doc'') f))
              [''chunk_02.json'', ''chunk_01.json'', ''notes.txt'']) = 1"
    by (simp add: endswith_def marked_file_def marked_def ex_store_def ex_config_def path_join_def
          dict_get_def)
  have first: "map (\<lambda>(c, out). map path_in_repo (operations c))
        (hub_calls (trace (snd (push_chunked ?S ex_config ''chunked''
                                  None None ex_clock no_results ex_store))))
       = [[''doc/chunk_02.json'']]"
    by (simp add: push_simps run_simps)
  have second: "fst (push_chunked ?S ex_config ''chunked'' None None ex_clock no_results
            (snd (push_chunked ?S ex_config ''chunked'' None None ex_clock no_results ex_store)))
       = Inr \<lparr>uploaded = 0, failed = 0, skipped = 2, files = [], all_failed_chunks = []\<rparr>"
    by (simp add: push_simps run_simps)
  have again: "trace (snd (push_chunked ?S ex_config ''chunked'' None None ex_clock no_results
            (snd (push_chunked ?S ex_config ''chunked'' None None ex_clock no_results ex_store))))
       = trace (snd (push_chunked ?S ex_config ''chunked'' None None ex_clock no_results ex_store))"
    by (simp add: push_simps run_simps)
  show ?thesis by (intro conjI h3 c m first second again)
qed

end
